theory Spec2Isabelle
  imports Complex_Main "HOL-Library.Word"
begin

section \<open>Shared constants and the wire codec\<close>

text \<open>
  Both programs start with the same four constants (lines 9-12 of each file).
  Python integers are unbounded, so they are \<open>int\<close> here; a datagram is a list of bytes.
\<close>

type_synonym byte = "8 word"

type_synonym addr = "string \<times> nat"

definition MAGIC_COOKIE :: int where
  "MAGIC_COOKIE = 0xabcddcba"

definition OFFER_MSG_TYPE :: int where
  "OFFER_MSG_TYPE = 0x2"

definition REQUEST_MSG_TYPE :: int where
  "REQUEST_MSG_TYPE = 0x3"

definition PAYLOAD_MSG_TYPE :: int where
  "PAYLOAD_MSG_TYPE = 0x4"

text \<open>The exceptions the two programs can meet; every \<open>raise\<close> is a value of this type.\<close>

datatype exn =
    ConnectionError
  | ValueError
  | StructError
  | SocketTimeout
  | SocketError
  | ZeroDivisionError

text \<open>
  \<open>struct\<close> with the \<open>!\<close> prefix: network byte order (big-endian), no padding.
  \<open>I\<close>, \<open>H\<close>, \<open>Q\<close> are unsigned 4, 2 and 8 byte fields, \<open>b\<close> is a signed byte.
\<close>

definition be_int :: "byte list \<Rightarrow> int" where
  "be_int bs = foldl (\<lambda>acc b. acc * 256 + uint b) 0 bs"

fun be_bytes :: "nat \<Rightarrow> int \<Rightarrow> byte list" where
  "be_bytes 0 v = []"
| "be_bytes (Suc n) v = be_bytes n (v div 256) @ [word_of_int (v mod 256)]"

definition fits_unsigned :: "nat \<Rightarrow> int \<Rightarrow> bool" where
  "fits_unsigned n v = (0 \<le> v \<and> v < 2 ^ (8 * n))"

definition fits_b :: "int \<Rightarrow> bool" where
  "fits_b v = (- 128 \<le> v \<and> v < 128)"

text \<open>\<open>struct.pack\<close> raises \<open>struct.error\<close> when a value does not fit its field.\<close>

definition pack_IbHH :: "int \<Rightarrow> int \<Rightarrow> int \<Rightarrow> int \<Rightarrow> exn + byte list" where
  "pack_IbHH magic t p q =
     (if fits_unsigned 4 magic \<and> fits_b t \<and> fits_unsigned 2 p \<and> fits_unsigned 2 q
      then Inr (be_bytes 4 magic @ [word_of_int t] @ be_bytes 2 p @ be_bytes 2 q)
      else Inl StructError)"

definition pack_IbQ :: "int \<Rightarrow> int \<Rightarrow> int \<Rightarrow> exn + byte list" where
  "pack_IbQ magic t v =
     (if fits_unsigned 4 magic \<and> fits_b t \<and> fits_unsigned 8 v
      then Inr (be_bytes 4 magic @ [word_of_int t] @ be_bytes 8 v)
      else Inl StructError)"

definition pack_IbQQ :: "int \<Rightarrow> int \<Rightarrow> int \<Rightarrow> int \<Rightarrow> exn + byte list" where
  "pack_IbQQ magic t v w =
     (if fits_unsigned 4 magic \<and> fits_b t \<and> fits_unsigned 8 v \<and> fits_unsigned 8 w
      then Inr (be_bytes 4 magic @ [word_of_int t] @ be_bytes 8 v @ be_bytes 8 w)
      else Inl StructError)"

text \<open>\<open>struct.unpack\<close> raises \<open>struct.error\<close> unless the buffer has exactly the format's size.\<close>

definition unpack_IbHH :: "byte list \<Rightarrow> exn + (int \<times> int \<times> int \<times> int)" where
  "unpack_IbHH buf =
     (if length buf = 9
      then Inr (be_int (take 4 buf), sint (buf ! 4),
                be_int (take 2 (drop 5 buf)), be_int (take 2 (drop 7 buf)))
      else Inl StructError)"

definition unpack_IbQ :: "byte list \<Rightarrow> exn + (int \<times> int \<times> int)" where
  "unpack_IbQ buf =
     (if length buf = 13
      then Inr (be_int (take 4 buf), sint (buf ! 4), be_int (take 8 (drop 5 buf)))
      else Inl StructError)"

definition unpack_IbQQ :: "byte list \<Rightarrow> exn + (int \<times> int \<times> int \<times> int)" where
  "unpack_IbQQ buf =
     (if length buf = 21
      then Inr (be_int (take 4 buf), sint (buf ! 4),
                be_int (take 8 (drop 5 buf)), be_int (take 8 (drop 13 buf)))
      else Inl StructError)"

text \<open>\<open>range(n)\<close>: empty for \<open>n \<le> 0\<close>.\<close>

definition py_range :: "int \<Rightarrow> int list" where
  "py_range n = map int [0..<nat n]"

section \<open>The environment of a handler\<close>

text \<open>
  What the code cannot decide is a parameter: \<open>randint e k\<close> is the \<open>k\<close>-th value that
  \<open>random.randint(0, 255)\<close> returns, and \<open>send_ok e k\<close> tells whether the socket call that
  hands over the \<open>k\<close>-th buffer (counted from 0 on that socket) returns or raises.
\<close>

record env =
  randint :: "nat \<Rightarrow> byte"
  send_ok :: "nat \<Rightarrow> bool"

text \<open>\<open>bytes([random.randint(0, 255) for _ in range(n)])\<close>, drawing from position \<open>pos\<close> on.\<close>

definition random_bytes :: "env \<Rightarrow> nat \<Rightarrow> int \<Rightarrow> byte list" where
  "random_bytes e pos n = map (\<lambda>i. randint e (pos + i)) [0..<nat n]"

section \<open>Server: the UDP transfer handler\<close>

text \<open>
  The state a handler changes: the buffers handed to the socket with their destination,
  oldest first, the number of random bytes drawn, and the lines printed.
\<close>

record out_state =
  sent :: "(byte list \<times> addr) list"
  drawn :: nat
  printed :: "string list"

definition segment_size :: int where
  "segment_size = 1024"

text \<open>
  The body of the \<open>for\<close> loop of \<open>_handle_udp_client\<close> (lines 168-182), one equation per
  iteration. An exception leaves the loop with the state reached so far. The pause of
  line 182 changes nothing that is sent.
\<close>

fun send_segments ::
  "env \<Rightarrow> addr \<Rightarrow> int \<Rightarrow> int \<Rightarrow> int list \<Rightarrow> out_state \<Rightarrow> exn option \<times> out_state" where
  "send_segments e a file_size total_segments [] s = (None, s)"
| "send_segments e a file_size total_segments (segment_num # rest) s =
     (let remaining = file_size - (segment_num * segment_size);
          curr_segment_size = min segment_size remaining;
          payload = random_bytes e (drawn s) curr_segment_size;
          s1 = s\<lparr>drawn := drawn s + nat curr_segment_size\<rparr>
      in case pack_IbQQ MAGIC_COOKIE PAYLOAD_MSG_TYPE total_segments segment_num of
           Inl err \<Rightarrow> (Some err, s1)
         | Inr header \<Rightarrow>
             if send_ok e (length (sent s1))
             then send_segments e a file_size total_segments rest
                    (s1\<lparr>sent := sent s1 @ [(header @ payload, a)]\<rparr>)
             else (Some SocketError, s1))"

definition handle_udp_client :: "env \<Rightarrow> addr \<Rightarrow> int \<Rightarrow> out_state \<Rightarrow> out_state" where
  "handle_udp_client e a file_size s =
     (let total_segments = (file_size + segment_size - 1) div segment_size
      in case send_segments e a file_size total_segments (py_range total_segments) s of
           (None, s') \<Rightarrow> s'
         | (Some err, s') \<Rightarrow> s'\<lparr>printed := printed s' @ [''Error handling UDP client'']\<rparr>)"

text \<open>The payload of a Payload datagram is what follows its 21 header bytes (\<open>data[21:]\<close>).\<close>

definition payload_of :: "byte list \<Rightarrow> byte list" where
  "payload_of data = drop 21 data"

text \<open>The datagrams a handler run added to the socket, given the state before and after.\<close>

definition new_datagrams :: "out_state \<Rightarrow> out_state \<Rightarrow> byte list list" where
  "new_datagrams s s' = map fst (drop (length (sent s)) (sent s'))"

text \<open>The payload lengths of the datagrams one run of the handler sends, in send order.\<close>

definition udp_payload_lengths :: "env \<Rightarrow> addr \<Rightarrow> int \<Rightarrow> out_state \<Rightarrow> nat list" where
  "udp_payload_lengths e a file_size s =
     map (\<lambda>d. length (payload_of d)) (new_datagrams s (handle_udp_client e a file_size s))"

text \<open>The length of the payload built for segment \<open>segment_num\<close> (lines 171-175).\<close>

definition seg_len :: "int \<Rightarrow> int \<Rightarrow> nat" where
  "seg_len file_size segment_num = nat (min segment_size (file_size - segment_num * segment_size))"

text \<open>A run in which no socket call fails, a handler state with nothing sent yet, a peer.\<close>

definition reliable_env :: env where
  "reliable_env = \<lparr>randint = (\<lambda>k. word_of_nat k), send_ok = (\<lambda>k. True)\<rparr>"

definition fresh_out :: out_state where
  "fresh_out = \<lparr>sent = [], drawn = 0, printed = []\<rparr>"

definition client_addr :: addr where
  "client_addr = (''10.0.0.7'', 50000)"

section \<open>Server: the TCP connection handler\<close>

text \<open>
  What \<open>client.recv(1024)\<close> gives the handler: bytes (none when the peer has closed), or
  an exception such as the 5 second timeout.
\<close>

datatype recv_result = RecvData "byte list" | RecvRaises exn

text \<open>
  The state of one accepted connection: the buffers handed to \<open>client.send\<close>, oldest
  first, the number of random bytes drawn, the lines printed, and whether \<open>client.close()\<close>
  has run. The code does not look at the count that \<open>send\<close> returns and adds the whole
  chunk to \<open>sent\<close>; accordingly a buffer handed to \<open>send\<close> counts as written here.
\<close>

record tcp_conn =
  written :: "byte list list"
  tcp_drawn :: nat
  tcp_printed :: "string list"
  closed :: bool

definition chunk_size :: int where
  "chunk_size = 1024"

text \<open>
  The \<open>while sent < file_size\<close> loop of \<open>_handle_tcp_client\<close> (lines 120-125). The second
  argument is the variable \<open>sent\<close>. An exception of \<open>client.send\<close> leaves the loop.
\<close>

function send_chunks :: "env \<Rightarrow> int \<Rightarrow> int \<Rightarrow> tcp_conn \<Rightarrow> exn option \<times> tcp_conn" where
  "send_chunks e file_size sent_bytes c =
     (if sent_bytes < file_size
      then (let remaining = file_size - sent_bytes;
                chunk = min chunk_size remaining;
                data = random_bytes e (tcp_drawn c) chunk;
                c1 = c\<lparr>tcp_drawn := tcp_drawn c + nat chunk\<rparr>
            in if send_ok e (length (written c1))
               then send_chunks e file_size (sent_bytes + chunk) (c1\<lparr>written := written c1 @ [data]\<rparr>)
               else (Some SocketError, c1))
      else (None, c))"
  by pat_completeness auto
termination
  by (relation "measure (\<lambda>(e, file_size, sent_bytes, c). nat (file_size - sent_bytes))")
     (auto simp: chunk_size_def)

text \<open>
  \<open>_handle_tcp_client\<close> (lines 103-130). \<open>py_int data\<close> stands for
  \<open>int(data.decode().strip())\<close>: the parsed integer, or \<open>None\<close> where Python raises
  \<open>ValueError\<close> (\<open>UnicodeDecodeError\<close> is one). The \<open>try\<close> body yields the exception
  it raised, if any; \<open>except Exception\<close> prints it, and \<open>finally\<close> closes the connection.
  The first component of the result is the exception that leaves the handler.
\<close>

definition tcp_client_body ::
  "(byte list \<Rightarrow> int option) \<Rightarrow> env \<Rightarrow> recv_result \<Rightarrow> tcp_conn \<Rightarrow> exn option \<times> tcp_conn" where
  "tcp_client_body py_int e rcv c =
     (case rcv of
        RecvRaises err \<Rightarrow> (Some err, c)
      | RecvData data \<Rightarrow>
          if data = [] then (Some ConnectionError, c)
          else (case py_int data of
                  None \<Rightarrow> (Some ValueError, c)
                | Some file_size \<Rightarrow>
                    if file_size \<le> 0 then (Some ValueError, c)
                    else send_chunks e file_size 0 c))"

definition handle_tcp_client ::
  "(byte list \<Rightarrow> int option) \<Rightarrow> env \<Rightarrow> recv_result \<Rightarrow> tcp_conn \<Rightarrow> exn option \<times> tcp_conn" where
  "handle_tcp_client py_int e rcv c =
     (case tcp_client_body py_int e rcv c of
        (None, c') \<Rightarrow> (None, c'\<lparr>closed := True\<rparr>)
      | (Some err, c') \<Rightarrow>
          (None, c'\<lparr>tcp_printed := tcp_printed c' @ [''Error handling TCP client''],
                     closed := True\<rparr>))"

text \<open>The buffers one handler run handed to \<open>client.send\<close>.\<close>

definition new_writes :: "tcp_conn \<Rightarrow> tcp_conn \<Rightarrow> byte list list" where
  "new_writes c c' = drop (length (written c)) (written c')"

text \<open>
  An instance of \<open>py_int\<close> for the examples. It reads the request line the client writes
  (\<open>f"{file_size}\n"\<close>, line 144 of the client): ASCII decimal digits and a newline, as
  Python's \<open>int\<close> reads them; it rejects every other input.
\<close>

fun digits_acc :: "int \<Rightarrow> byte list \<Rightarrow> int option" where
  "digits_acc acc [] = Some acc"
| "digits_acc acc (b # bs) =
     (if 48 \<le> uint b \<and> uint b \<le> 57 then digits_acc (acc * 10 + (uint b - 48)) bs else None)"

definition request_line_int :: "byte list \<Rightarrow> int option" where
  "request_line_int data =
     (case rev data of
        [] \<Rightarrow> None
      | nl # r \<Rightarrow> if nl = 10 \<and> r \<noteq> [] then digits_acc 0 (rev r) else None)"

definition fresh_conn :: tcp_conn where
  "fresh_conn = \<lparr>written = [], tcp_drawn = 0, tcp_printed = [], closed = False\<rparr>"

text \<open>Request lines for the examples: \<open>"2500\n"\<close>, \<open>"0\n"\<close> and \<open>"abc\n"\<close>.\<close>

definition request_2500 :: "byte list" where
  "request_2500 = [0x32, 0x35, 0x30, 0x30, 0x0A]"

definition request_0 :: "byte list" where
  "request_0 = [0x30, 0x0A]"

definition request_abc :: "byte list" where
  "request_abc = [0x61, 0x62, 0x63, 0x0A]"

section \<open>Client: the offer listener\<close>

text \<open>
  What one call of \<open>recvfrom\<close> on a UDP socket gives: a datagram and its sender, or an
  exception (\<open>SocketTimeout\<close> when the socket's timeout expires with nothing received).
\<close>

datatype udp_recv = Datagram "byte list" addr | RecvFails exn

text \<open>
  The \<open>try\<close> body of one iteration of the \<open>while True\<close> loop of \<open>_wait_for_offer\<close>
  (lines 96-102). \<open>Inl err\<close>: the body raised \<open>err\<close> (an exception of \<open>recvfrom\<close>, the
  10 second timeout included, or of \<open>struct.unpack\<close>). \<open>Inr (Some r)\<close>: the body returned
  \<open>r\<close>. \<open>Inr None\<close>: the body ended without returning and without an exception.
\<close>

definition offer_try :: "udp_recv \<Rightarrow> exn + (string \<times> int \<times> int) option" where
  "offer_try ev =
     (case ev of
        RecvFails err \<Rightarrow> Inl err
      | Datagram data a \<Rightarrow>
          if length data \<ge> 9
          then (case unpack_IbHH (take 9 data) of
                  Inl err \<Rightarrow> Inl err
                | Inr (magic, msg_type, udp_port, tcp_port) \<Rightarrow>
                    if magic = MAGIC_COOKIE \<and> msg_type = OFFER_MSG_TYPE
                    then Inr (Some (fst a, (udp_port, tcp_port)))
                    else Inr None)
          else Inr None)"

text \<open>
  The whole iteration (lines 95-105): the \<open>except Exception\<close> branch prints the exception
  and the iteration ends without \<open>return\<close>. \<open>offer_of\<close> is the value returned, if any;
  \<open>offer_prints\<close> is what the iteration prints.
\<close>

definition offer_of :: "udp_recv \<Rightarrow> (string \<times> int \<times> int) option" where
  "offer_of ev = (case offer_try ev of Inl err \<Rightarrow> None | Inr r \<Rightarrow> r)"

definition offer_prints :: "udp_recv \<Rightarrow> string list" where
  "offer_prints ev = (case offer_try ev of Inl err \<Rightarrow> [''Error receiving offer''] | Inr r \<Rightarrow> [])"

text \<open>
  The loop itself. \<open>recvfrom i\<close> is the outcome of the \<open>i\<close>-th call of
  \<open>self.udp_socket.recvfrom(1024)\<close>. The loop has no exit but the \<open>return\<close>, so the
  listener is a partial function: \<open>None\<close> means that it never returns.
\<close>

partial_function (option) wait_for_offer ::
  "(nat \<Rightarrow> udp_recv) \<Rightarrow> nat \<Rightarrow> (string \<times> int \<times> int) option" where
  "wait_for_offer recvfrom i =
     (case offer_of (recvfrom i) of
        Some r \<Rightarrow> Some r
      | None \<Rightarrow> wait_for_offer recvfrom (Suc i))"

text \<open>A socket on which nothing ever arrives: every \<open>recvfrom\<close> times out.\<close>

definition silent_socket :: "nat \<Rightarrow> udp_recv" where
  "silent_socket i = RecvFails SocketTimeout"

text \<open>
  A buffer is malformed for a message kind when it is shorter than the header, or its
  first four bytes are not the magic cookie, or its fifth byte is not the expected type.
\<close>

definition malformed :: "nat \<Rightarrow> int \<Rightarrow> byte list \<Rightarrow> bool" where
  "malformed header_len expected_type data =
     (length data < header_len
      \<or> be_int (take 4 data) \<noteq> MAGIC_COOKIE
      \<or> sint (data ! 4) \<noteq> expected_type)"

text \<open>An Offer as the server packs it (line 83 of the server), and a server address.\<close>

definition offer_bytes :: "byte list" where
  "offer_bytes = [0xAB, 0xCD, 0xDC, 0xBA, 0x02, 0x1F, 0x90, 0x23, 0x28]"

definition server_addr :: addr where
  "server_addr = (''10.0.0.1'', 40000)"

text \<open>Two timeouts, one foreign datagram, then the Offer; silence afterwards.\<close>

definition offer_after_noise :: "nat \<Rightarrow> udp_recv" where
  "offer_after_noise i =
     (if i < 2 then RecvFails SocketTimeout
      else if i = 2 then Datagram [0x00, 0x01] server_addr
      else if i = 3 then Datagram offer_bytes server_addr
      else RecvFails SocketTimeout)"

text \<open>What makes an iteration of the listener end without \<open>return\<close>.\<close>

definition no_offer :: "udp_recv \<Rightarrow> bool" where
  "no_offer ev =
     (case ev of
        RecvFails err \<Rightarrow> True
      | Datagram data a \<Rightarrow> malformed 9 OFFER_MSG_TYPE data)"

section \<open>Client: the UDP transfer\<close>

text \<open>
  The local variables of \<open>_udp_transfer\<close> that the receive loop changes (lines 181-184).
  \<open>time.time()\<close> returns a float; clock readings are real numbers here, and the float
  division of the report is the exact one. Division by zero raises in Python, so it is a
  result of its own.
\<close>

record udp_client =
  bytes_received :: int
  segments_received :: "int set"
  total_segments :: "int option"
  last_packet_time :: real

definition py_truediv :: "real \<Rightarrow> real \<Rightarrow> exn + real" where
  "py_truediv x y = (if y = 0 then Inl ZeroDivisionError else Inr (x / y))"

text \<open>
  Lines 193-210: what the loop does with a received datagram, \<open>t\<close> being the clock reading
  of line 193. Each \<open>continue\<close> is a result \<open>Inr\<close> with the state reached.
\<close>

definition on_datagram :: "byte list \<Rightarrow> real \<Rightarrow> udp_client \<Rightarrow> exn + udp_client" where
  "on_datagram data t st =
     (let st1 = st\<lparr>last_packet_time := t\<rparr>
      in if length data < 21 then Inr st1
         else (case unpack_IbQQ (take 21 data) of
                 Inl err \<Rightarrow> Inl err
               | Inr (magic, msg_type, total_segs, seg_num) \<Rightarrow>
                   if magic \<noteq> MAGIC_COOKIE \<or> msg_type \<noteq> PAYLOAD_MSG_TYPE then Inr st1
                   else (let payload = drop 21 data;
                             st2 = (if total_segments st1 = None
                                    then st1\<lparr>total_segments := Some total_segs\<rparr>
                                    else st1)
                         in if seg_num \<notin> segments_received st2
                            then Inr (st2\<lparr>segments_received := insert seg_num (segments_received st2),
                                           bytes_received := bytes_received st2 + int (length payload)\<rparr>)
                            else Inr st2)))"

text \<open>
  One pass through the \<open>while True\<close> loop (lines 186-213) meets the clock at line 187, the
  outcome of \<open>recvfrom\<close>, and, when a datagram came, the clock at line 193.
\<close>

record tick =
  clock_top :: real
  recv :: udp_recv
  clock_recv :: real

text \<open>
  The loop over the passes that the environment offers. \<open>None\<close>: the passes are used up and
  the loop is still running. \<open>Some (Inr st)\<close>: the \<open>break\<close> of line 188, with the state at that
  moment. \<open>Some (Inl err)\<close>: an exception other than \<open>socket.timeout\<close> left the loop.
\<close>

fun udp_receive_loop :: "tick list \<Rightarrow> udp_client \<Rightarrow> (exn + udp_client) option" where
  "udp_receive_loop [] st = None"
| "udp_receive_loop (p # ps) st =
     (if clock_top p - last_packet_time st > 1.0 then Some (Inr st)
      else (case recv p of
              RecvFails err \<Rightarrow>
                if err = SocketTimeout then udp_receive_loop ps st else Some (Inl err)
            | Datagram data a \<Rightarrow>
                (case on_datagram data (clock_recv p) st of
                   Inl err \<Rightarrow> Some (Inl err)
                 | Inr st' \<Rightarrow> udp_receive_loop ps st')))"

text \<open>
  Line 217: \<open>len(segments_received) / total_segments * 100 if total_segments else 0\<close>.
  \<open>None\<close> and \<open>0\<close> are both false in the condition.
\<close>

definition success_rate_of :: "udp_client \<Rightarrow> exn + real" where
  "success_rate_of st =
     (case total_segments st of
        None \<Rightarrow> Inr 0
      | Some n \<Rightarrow>
          if n = 0 then Inr 0
          else (case py_truediv (real (card (segments_received st))) (real_of_int n) of
                  Inl err \<Rightarrow> Inl err
                | Inr q \<Rightarrow> Inr (q * 100)))"

record udp_report =
  udp_duration :: real
  udp_speed :: real
  udp_success_rate :: real

definition udp_client_init :: "real \<Rightarrow> udp_client" where
  "udp_client_init t =
     \<lparr>bytes_received = 0, segments_received = {}, total_segments = None, last_packet_time = t\<rparr>"

text \<open>
  The \<open>try\<close> body of \<open>_udp_transfer\<close> from the request to the report (lines 177-217).
  \<open>sendto_ok\<close> tells whether \<open>sock.sendto\<close> returns; \<open>start_time\<close>, \<open>t0\<close> and \<open>end_time\<close> are the
  clock readings of lines 180, 184 and 215.
\<close>

definition udp_transfer ::
  "int \<Rightarrow> bool \<Rightarrow> real \<Rightarrow> real \<Rightarrow> tick list \<Rightarrow> real \<Rightarrow> (exn + udp_report) option" where
  "udp_transfer file_size sendto_ok start_time t0 passes end_time =
     (case pack_IbQ MAGIC_COOKIE REQUEST_MSG_TYPE file_size of
        Inl err \<Rightarrow> Some (Inl err)
      | Inr request \<Rightarrow>
          if \<not> sendto_ok then Some (Inl SocketError)
          else (case udp_receive_loop passes (udp_client_init t0) of
                  None \<Rightarrow> None
                | Some (Inl err) \<Rightarrow> Some (Inl err)
                | Some (Inr st) \<Rightarrow>
                    (let duration = end_time - start_time
                     in case py_truediv (real_of_int (bytes_received st * 8)) (duration * 1000000) of
                          Inl err \<Rightarrow> Some (Inl err)
                        | Inr speed \<Rightarrow>
                            (case success_rate_of st of
                               Inl err \<Rightarrow> Some (Inl err)
                             | Inr rate \<Rightarrow>
                                 Some (Inr \<lparr>udp_duration = duration, udp_speed = speed,
                                            udp_success_rate = rate\<rparr>)))))"

text \<open>
  The decoded fields of a datagram that passes the checks of lines 195-202:
  \<open>(total_segs, seg_num, payload)\<close>.
\<close>

definition segment_of :: "byte list \<Rightarrow> (int \<times> int \<times> byte list) option" where
  "segment_of data =
     (if malformed 21 PAYLOAD_MSG_TYPE data then None
      else Some (be_int (take 8 (drop 5 data)), be_int (take 8 (drop 13 data)), drop 21 data))"

text \<open>The valid segments among the datagrams that a list of passes carries, in order.\<close>

fun valid_segments :: "tick list \<Rightarrow> (int \<times> int \<times> byte list) list" where
  "valid_segments [] = []"
| "valid_segments (p # ps) =
     (case recv p of
        RecvFails err \<Rightarrow> valid_segments ps
      | Datagram data a \<Rightarrow>
          (case segment_of data of
             None \<Rightarrow> valid_segments ps
           | Some seg \<Rightarrow> seg # valid_segments ps))"

text \<open>
  Segment numbers as the server assigns them: every valid segment carries a number below
  the total that the first valid segment declares.
\<close>

definition numbers_below_total :: "tick list \<Rightarrow> bool" where
  "numbers_below_total passes =
     (case valid_segments passes of
        [] \<Rightarrow> True
      | (total_segs, seg_num, payload) # rest \<Rightarrow>
          list_all (\<lambda>(t, n, p). n < total_segs) (valid_segments passes))"

text \<open>A Payload header for \<open>total_segs = 1\<close> with segment number 0, and one with number 1.\<close>

definition segment_0_of_1 :: "byte list" where
  "segment_0_of_1 = [0xAB, 0xCD, 0xDC, 0xBA, 0x04, 0, 0, 0, 0, 0, 0, 0, 1, 0, 0, 0, 0, 0, 0, 0, 0, 0x55]"

definition segment_1_of_1 :: "byte list" where
  "segment_1_of_1 = [0xAB, 0xCD, 0xDC, 0xBA, 0x04, 0, 0, 0, 0, 0, 0, 0, 1, 0, 0, 0, 0, 0, 0, 0, 1, 0x66]"

definition pass_with :: "real \<Rightarrow> byte list \<Rightarrow> tick" where
  "pass_with t data = \<lparr>clock_top = t, recv = Datagram data server_addr, clock_recv = t\<rparr>"

definition pass_timeout :: "real \<Rightarrow> tick" where
  "pass_timeout t = \<lparr>clock_top = t, recv = RecvFails SocketTimeout, clock_recv = t\<rparr>"

text \<open>The total that the first valid segment among the passes declares, if there is one.\<close>

definition first_total :: "tick list \<Rightarrow> int option" where
  "first_total passes =
     (case valid_segments passes of
        [] \<Rightarrow> None
      | (total_segs, seg_num, payload) # rest \<Rightarrow> Some total_segs)"

text \<open>A Payload header that declares \<open>total_segs = 0\<close>.\<close>

definition segment_0_of_0 :: "byte list" where
  "segment_0_of_0 = [0xAB, 0xCD, 0xDC, 0xBA, 0x04, 0, 0, 0, 0, 0, 0, 0, 0, 0, 0, 0, 0, 0, 0, 0, 0]"

text \<open>
  Example runs: the state after segment 0 of 1 has been received once; passes in which that
  segment arrives twice before the socket falls silent; passes in which a second datagram
  carries the number 1 although the total is 1; and passes with nothing but a timeout.
\<close>

definition seen_0 :: udp_client where
  "seen_0 = \<lparr>bytes_received = 1, segments_received = {0}, total_segments = Some 1,
             last_packet_time = 0.1\<rparr>"

definition duplicate_passes :: "tick list" where
  "duplicate_passes =
     [pass_with 0.1 segment_0_of_1, pass_with 0.2 segment_0_of_1, pass_timeout 1.3]"

definition overshoot_passes :: "tick list" where
  "overshoot_passes =
     [pass_with 0.1 segment_0_of_1, pass_with 0.2 segment_1_of_1, pass_timeout 1.3]"

definition silent_passes :: "tick list" where
  "silent_passes = [pass_timeout 1.0, pass_timeout 2.1]"

definition zero_total_passes :: "tick list" where
  "zero_total_passes = [pass_with 0.1 segment_0_of_0, pass_timeout 1.2]"

text \<open>
  The clock reading taken at the most recent datagram of any kind among the passes, or the
  reading \<open>t\<close> before them when they carry none.
\<close>

fun last_reading :: "real \<Rightarrow> tick list \<Rightarrow> real" where
  "last_reading t [] = t"
| "last_reading t (p # ps) =
     last_reading (case recv p of Datagram data a \<Rightarrow> clock_recv p | RecvFails err \<Rightarrow> t) ps"

text \<open>
  Two more example runs. In the first \<open>recvfrom\<close> raises an error that is not the timeout,
  half a second after the start. In the second the first receive times out, the test at
  the head of the loop reads exactly 1.0, and the datagram that the second receive
  delivers is read at 1.4.
\<close>

definition error_passes :: "tick list" where
  "error_passes = [\<lparr>clock_top = 0.5, recv = RecvFails SocketError, clock_recv = 0.5\<rparr>]"

definition late_passes :: "tick list" where
  "late_passes =
     [pass_timeout 0,
      \<lparr>clock_top = 1.0, recv = Datagram segment_0_of_1 server_addr, clock_recv = 1.4\<rparr>,
      pass_timeout 2.5]"

text \<open>
  What the test at the head of pass \<open>j\<close> measures (line 187): the clock read there minus
  the reading at the most recent datagram before it. Only used for \<open>j\<close> below the number of
  passes.
\<close>

definition head_gap :: "udp_client \<Rightarrow> tick list \<Rightarrow> nat \<Rightarrow> real" where
  "head_gap st ps j = clock_top (ps ! j) - last_reading (last_packet_time st) (take j ps)"

text \<open>A pass in which \<open>recvfrom\<close> delivers a datagram or times out, and raises nothing else.\<close>

definition only_timeout :: "tick \<Rightarrow> bool" where
  "only_timeout p = (case recv p of Datagram data a \<Rightarrow> True | RecvFails err \<Rightarrow> err = SocketTimeout)"

text \<open>
  Before pass \<open>k\<close> no test at the head of the loop has fired and \<open>recvfrom\<close> has raised
  nothing but timeouts.
\<close>

definition quiet_before :: "udp_client \<Rightarrow> tick list \<Rightarrow> nat \<Rightarrow> bool" where
  "quiet_before st ps k = (\<forall>j<k. head_gap st ps j \<le> 1 \<and> only_timeout (ps ! j))"

text \<open>A single pass whose receive times out half a second after the start.\<close>

definition waiting_passes :: "tick list" where
  "waiting_passes = [pass_timeout 0.5]"

section \<open>Server: the UDP request receiver\<close>

text \<open>
  \<open>_handle_udp_requests\<close> (lines 132-158) starts one thread per valid Request. Its state is
  the list of handlers started, each with the requester's address and the file size, and
  the lines printed.
\<close>

record udp_server =
  spawned :: "(addr \<times> int) list"
  srv_printed :: "string list"

text \<open>
  \<open>socket.error\<close> is \<open>OSError\<close>; the timeout and the connection errors are among its
  subclasses.
\<close>

definition is_socket_error :: "exn \<Rightarrow> bool" where
  "is_socket_error err = (err = SocketError \<or> err = SocketTimeout \<or> err = ConnectionError)"

text \<open>
  The outer \<open>try\<close> body of one iteration of its \<open>while True\<close> loop (lines 136-155).
  \<open>Inl err\<close>: the body raised \<open>err\<close>. The inner \<open>except socket.error\<close> (line 138) prints and
  continues; any other exception of \<open>recvfrom\<close>, and an exception of \<open>struct.unpack\<close>,
  leave the body.
\<close>

definition udp_request_try :: "udp_recv \<Rightarrow> udp_server \<Rightarrow> exn + udp_server" where
  "udp_request_try ev s =
     (case ev of
        RecvFails err \<Rightarrow>
          if is_socket_error err
          then Inr (s\<lparr>srv_printed := srv_printed s @ [''Network error receiving UDP request'']\<rparr>)
          else Inl err
      | Datagram data a \<Rightarrow>
          if data = []
          then Inr (s\<lparr>srv_printed := srv_printed s @ [''Received empty UDP packet'']\<rparr>)
          else if length data \<ge> 13
          then (case unpack_IbQ (take 13 data) of
                  Inl err \<Rightarrow> Inl err
                | Inr (magic, msg_type, file_size) \<Rightarrow>
                    if magic = MAGIC_COOKIE \<and> msg_type = REQUEST_MSG_TYPE
                    then Inr (s\<lparr>spawned := spawned s @ [(a, file_size)]\<rparr>)
                    else Inr (s\<lparr>srv_printed :=
                                   srv_printed s @ [''Received invalid UDP packet format'']\<rparr>))
          else Inr s)"

text \<open>
  The whole iteration: the outer \<open>except Exception\<close> (lines 157-158) prints the exception
  that left the body, and the loop goes on.
\<close>

definition udp_request_step :: "udp_recv \<Rightarrow> udp_server \<Rightarrow> udp_server" where
  "udp_request_step ev s =
     (case udp_request_try ev s of
        Inl err \<Rightarrow> s\<lparr>srv_printed := srv_printed s @ [''Error handling UDP request'']\<rparr>
      | Inr s' \<Rightarrow> s')"

text \<open>
  The loop never ends by itself; the function gives the state after the receives listed,
  each iteration followed by the next one.
\<close>

fun handle_udp_requests :: "udp_recv list \<Rightarrow> udp_server \<Rightarrow> udp_server" where
  "handle_udp_requests [] s = s"
| "handle_udp_requests (ev # evs) s = handle_udp_requests evs (udp_request_step ev s)"

definition fresh_server :: udp_server where
  "fresh_server = \<lparr>spawned = [], srv_printed = []\<rparr>"

text \<open>
  Malformed buffers for the examples: two bytes; 21 bytes with a foreign magic cookie; a
  13 byte buffer with the cookie and the Payload type where a Request is expected.
\<close>

definition short_bytes :: "byte list" where
  "short_bytes = [0x00, 0x01]"

definition bad_magic_segment :: "byte list" where
  "bad_magic_segment =
     [0xDE, 0xAD, 0xBE, 0xEF, 0x04, 0, 0, 0, 0, 0, 0, 0, 1, 0, 0, 0, 0, 0, 0, 0, 0]"

definition wrong_type_request :: "byte list" where
  "wrong_type_request = [0xAB, 0xCD, 0xDC, 0xBA, 0x04, 0, 0, 0, 0, 0, 0, 0x04, 0x00]"

section \<open>Client: the TCP transfer\<close>

text \<open>How \<open>sock.connect\<close> ends (lines 134-142).\<close>

datatype connect_outcome = Connected | ConnectTimedOut | ConnectRefused | ConnectBadAddress

text \<open>
  The \<open>while bytes_received < file_size\<close> loop (lines 149-153) over the results of
  \<open>sock.recv(1024)\<close>. \<open>None\<close>: the results listed are used up and the loop is still waiting.
  An empty chunk is the peer's close and breaks the loop. The last argument, \<open>received\<close>,
  is the variable \<open>bytes_received\<close>.
\<close>

fun tcp_receive_loop :: "recv_result list \<Rightarrow> int \<Rightarrow> int \<Rightarrow> (exn + int) option" where
  "tcp_receive_loop [] file_size received =
     (if received < file_size then None else Some (Inr received))"
| "tcp_receive_loop (r # rs) file_size received =
     (if received < file_size
      then (case r of
              RecvRaises err \<Rightarrow> Some (Inl err)
            | RecvData chunk \<Rightarrow>
                if chunk = [] then Some (Inr received)
                else tcp_receive_loop rs file_size (received + int (length chunk)))
      else Some (Inr received))"

record tcp_report =
  tcp_duration :: real
  tcp_speed :: real

text \<open>
  The \<open>try\<close> body of \<open>_tcp_transfer\<close> (lines 132-160): connect, send the request line, read,
  compute. \<open>start_time\<close> and \<open>end_time\<close> are the clock readings of lines 146 and 155. Line
  156 computes the speed from \<open>file_size\<close>.
\<close>

definition tcp_transfer ::
  "connect_outcome \<Rightarrow> bool \<Rightarrow> int \<Rightarrow> real \<Rightarrow> recv_result list \<Rightarrow> real
     \<Rightarrow> (exn + tcp_report) option" where
  "tcp_transfer conn request_sent file_size start_time chunks end_time =
     (case conn of
        ConnectTimedOut \<Rightarrow> Some (Inl ConnectionError)
      | ConnectRefused \<Rightarrow> Some (Inl ConnectionError)
      | ConnectBadAddress \<Rightarrow> Some (Inl ConnectionError)
      | Connected \<Rightarrow>
          if request_sent
          then (case tcp_receive_loop chunks file_size 0 of
                  None \<Rightarrow> None
                | Some (Inl err) \<Rightarrow> Some (Inl err)
                | Some (Inr received) \<Rightarrow>
                    (let duration = end_time - start_time
                     in case py_truediv (real_of_int (file_size * 8)) duration of
                          Inl err \<Rightarrow> Some (Inl err)
                        | Inr speed \<Rightarrow>
                            Some (Inr \<lparr>tcp_duration = duration, tcp_speed = speed\<rparr>)))
          else Some (Inl SocketError))"

text \<open>A peer that delivers 1024 bytes and then closes.\<close>

definition early_close_chunks :: "recv_result list" where
  "early_close_chunks = [RecvData (replicate 1024 0), RecvData []]"

section \<open>Client: the transfer orchestrator\<close>

text \<open>
  \<open>_run_speed_test\<close> (lines 107-125) starts one thread per transfer and joins them all.
  A thread is the call it was created for and whether its target is still running.
  \<open>Thread.start\<close> is taken to succeed.
\<close>

datatype transfer_kind = TCP | UDP

datatype thread_status = Running | Finished

record config =
  cfg_server_ip :: string
  cfg_udp_port :: int
  cfg_tcp_port :: int
  cfg_file_size :: int
  cfg_tcp_count :: int
  cfg_udp_count :: int

record task =
  target :: transfer_kind
  task_ip :: string
  task_port :: int
  task_size :: int
  transfer_num :: int

text \<open>
  \<open>args=(server_ip, server_ports[1], file_size, i + 1)\<close> for TCP and
  \<open>args=(server_ip, server_ports[0], file_size, i + 1)\<close> for UDP; \<open>server_ports\<close> is
  \<open>(udp_port, tcp_port)\<close>.
\<close>

definition tcp_task :: "config \<Rightarrow> int \<Rightarrow> task" where
  "tcp_task cfg i =
     \<lparr>target = TCP, task_ip = cfg_server_ip cfg, task_port = cfg_tcp_port cfg,
      task_size = cfg_file_size cfg, transfer_num = i + 1\<rparr>"

definition udp_task :: "config \<Rightarrow> int \<Rightarrow> task" where
  "udp_task cfg i =
     \<lparr>target = UDP, task_ip = cfg_server_ip cfg, task_port = cfg_udp_port cfg,
      task_size = cfg_file_size cfg, transfer_num = i + 1\<rparr>"

text \<open>
  Where the orchestrator stands: in the first \<open>for\<close> loop with the values of \<open>i\<close> still to
  come, in the second one, in the join loop before the thread with the given position in
  \<open>threads\<close>, or returned.
\<close>

datatype control = TcpLoop "int list" | UdpLoop "int list" | JoinLoop nat | Returned

type_synonym run_state = "control \<times> (task \<times> thread_status) list"

text \<open>
  One step of the orchestrator; \<open>None\<close> when it cannot move: \<open>thread.join()\<close> blocks while
  the thread's target is running, and after the return there is nothing left to do.
\<close>

fun main_step :: "config \<Rightarrow> run_state \<Rightarrow> run_state option" where
  "main_step cfg (TcpLoop (i # rest), threads) =
     Some (TcpLoop rest, threads @ [(tcp_task cfg i, Running)])"
| "main_step cfg (TcpLoop [], threads) = Some (UdpLoop (py_range (cfg_udp_count cfg)), threads)"
| "main_step cfg (UdpLoop (i # rest), threads) =
     Some (UdpLoop rest, threads @ [(udp_task cfg i, Running)])"
| "main_step cfg (UdpLoop [], threads) = Some (JoinLoop 0, threads)"
| "main_step cfg (JoinLoop k, threads) =
     (if k < length threads
      then (if snd (threads ! k) = Finished then Some (JoinLoop (Suc k), threads) else None)
      else Some (Returned, threads))"
| "main_step cfg (Returned, threads) = None"

text \<open>
  The target of thread \<open>k\<close> returns. Both transfer functions catch every exception, so a
  transfer that fails ends its thread like one that succeeds.
\<close>

fun thread_returns :: "nat \<Rightarrow> run_state \<Rightarrow> run_state option" where
  "thread_returns k (c, threads) =
     (if k < length threads \<and> snd (threads ! k) = Running
      then Some (c, threads[k := (fst (threads ! k), Finished)])
      else None)"

text \<open>
  A schedule says who moves next. \<open>run\<close> follows a schedule from a state; \<open>None\<close> when the
  schedule asks for a move that is not possible.
\<close>

datatype action = Orchestrator | ThreadReturns nat

fun run :: "config \<Rightarrow> action list \<Rightarrow> run_state \<Rightarrow> run_state option" where
  "run cfg [] s = Some s"
| "run cfg (Orchestrator # acts) s =
     (case main_step cfg s of None \<Rightarrow> None | Some s' \<Rightarrow> run cfg acts s')"
| "run cfg (ThreadReturns k # acts) s =
     (case thread_returns k s of None \<Rightarrow> None | Some s' \<Rightarrow> run cfg acts s')"

definition initial :: "config \<Rightarrow> run_state" where
  "initial cfg = (TcpLoop (py_range (cfg_tcp_count cfg)), [])"

text \<open>The calls that the two loops create threads for, in the order of creation.\<close>

definition tasks :: "config \<Rightarrow> task list" where
  "tasks cfg =
     map (tcp_task cfg) (py_range (cfg_tcp_count cfg))
     @ map (udp_task cfg) (py_range (cfg_udp_count cfg))"

text \<open>What the invariant of a run says at each place of the orchestrator.\<close>

fun run_invariant :: "config \<Rightarrow> run_state \<Rightarrow> bool" where
  "run_invariant cfg (TcpLoop rest, threads) =
     (\<exists>started. py_range (cfg_tcp_count cfg) = started @ rest
        \<and> map fst threads = map (tcp_task cfg) started)"
| "run_invariant cfg (UdpLoop rest, threads) =
     (\<exists>started. py_range (cfg_udp_count cfg) = started @ rest
        \<and> map fst threads
            = map (tcp_task cfg) (py_range (cfg_tcp_count cfg)) @ map (udp_task cfg) started)"
| "run_invariant cfg (JoinLoop k, threads) =
     (map fst threads = tasks cfg \<and> k \<le> length threads
        \<and> list_all (\<lambda>th. snd th = Finished) (take k threads))"
| "run_invariant cfg (Returned, threads) =
     (map fst threads = tasks cfg \<and> list_all (\<lambda>th. snd th = Finished) threads)"

text \<open>The example of the specification: three TCP and two UDP transfers.\<close>

definition three_and_two :: config where
  "three_and_two =
     \<lparr>cfg_server_ip = ''10.0.0.1'', cfg_udp_port = 8080, cfg_tcp_port = 9000,
      cfg_file_size = 1048576, cfg_tcp_count = 3, cfg_udp_count = 2\<rparr>"

text \<open>
  A schedule for it: the orchestrator starts all five threads and reaches the join loop,
  the threads end in the order 4, 0, 2, 1, 3, and the orchestrator joins them and returns.
\<close>

definition five_schedule :: "action list" where
  "five_schedule =
     replicate 7 Orchestrator
     @ [ThreadReturns 4, ThreadReturns 0, Orchestrator, ThreadReturns 2, ThreadReturns 1,
        Orchestrator, Orchestrator, ThreadReturns 3]
     @ replicate 3 Orchestrator"

section \<open>Server: the UDP handler sends the requested bytes in 1024-byte segments\<close>

subsection \<open>Every segment is packed and sent when no socket call fails\<close>

lemma length_be_bytes [simp]: "length (be_bytes n v) = n"
  by (induction n arbitrary: v) auto

lemma pack_IbQQ_length: "pack_IbQQ m t v w = Inr h \<Longrightarrow> length h = 21"
  by (auto simp: pack_IbQQ_def split: if_splits)

lemma pack_IbQQ_payload_ok:
  "0 \<le> v \<Longrightarrow> v < 2 ^ 64 \<Longrightarrow> 0 \<le> w \<Longrightarrow> w < 2 ^ 64 \<Longrightarrow>
   \<exists>h. pack_IbQQ MAGIC_COOKIE PAYLOAD_MSG_TYPE v w = Inr h \<and> length h = 21"
  by (simp add: pack_IbQQ_def fits_unsigned_def fits_b_def MAGIC_COOKIE_def PAYLOAD_MSG_TYPE_def)

lemma send_segments_all:
  assumes ok: "\<forall>k. send_ok e k"
    and tot: "0 \<le> tsegs" "tsegs < 2 ^ 64"
    and segs: "\<forall>n \<in> set segs. 0 \<le> n \<and> n < 2 ^ 64"
  shows "\<exists>s' new. send_segments e a fs tsegs segs s = (None, s')
           \<and> sent s' = sent s @ new \<and> printed s' = printed s
           \<and> map (\<lambda>d. length (payload_of (fst d))) new = map (seg_len fs) segs"
  using segs
proof (induction segs arbitrary: s)
  case Nil
  then show ?case by simp
next
  case (Cons n rest)
  from Cons.prems tot obtain h where h: "pack_IbQQ MAGIC_COOKIE PAYLOAD_MSG_TYPE tsegs n = Inr h" "length h = 21"
    using pack_IbQQ_payload_ok[of tsegs n] by auto
  let ?pl = "random_bytes e (drawn s) (min segment_size (fs - n * segment_size))"
  let ?s2 = "s\<lparr>drawn := drawn s + nat (min segment_size (fs - n * segment_size)),
               sent := sent s @ [(h @ ?pl, a)]\<rparr>"
  from Cons.IH[of ?s2] Cons.prems obtain s' new where
    r: "send_segments e a fs tsegs rest ?s2 = (None, s')" "sent s' = sent ?s2 @ new"
       "printed s' = printed ?s2"
       "map (\<lambda>d. length (payload_of (fst d))) new = map (seg_len fs) rest"
    by auto
  have "send_segments e a fs tsegs (n # rest) s = (None, s')"
    using h ok r(1) by (simp add: Let_def)
  moreover have "sent s' = sent s @ ((h @ ?pl, a) # new)" using r(2) by simp
  moreover have "printed s' = printed s" using r(3) by simp
  moreover have "map (\<lambda>d. length (payload_of (fst d))) ((h @ ?pl, a) # new) = map (seg_len fs) (n # rest)"
    using r(4) h(2) by (simp add: payload_of_def seg_len_def random_bytes_def)
  ultimately show ?case by blast
qed

lemma total_bounds:
  assumes "0 \<le> (fs::int)" "fs < 2 ^ 64"
  shows "0 \<le> (fs + segment_size - 1) div segment_size" "(fs + segment_size - 1) div segment_size < 2 ^ 64"
  using assms by (auto simp: segment_size_def)

lemma udp_payload_lengths_eq:
  assumes "0 \<le> fs" "fs < 2 ^ 64" "\<forall>k. send_ok e k"
  shows "udp_payload_lengths e a fs s = map (seg_len fs) (py_range ((fs + segment_size - 1) div segment_size))"
proof -
  let ?t = "(fs + segment_size - 1) div segment_size"
  have t: "0 \<le> ?t" "?t < 2 ^ 64" using total_bounds[OF assms(1,2)] by auto
  have "\<forall>n \<in> set (py_range ?t). 0 \<le> n \<and> n < 2 ^ 64"
    using t by (auto simp: py_range_def)
  from send_segments_all[OF assms(3) t this, of a fs s] obtain s' new where
    r: "send_segments e a fs ?t (py_range ?t) s = (None, s')" "sent s' = sent s @ new"
       "map (\<lambda>d. length (payload_of (fst d))) new = map (seg_len fs) (py_range ?t)"
    by blast
  have "handle_udp_client e a fs s = s'"
    using r(1) by (simp add: handle_udp_client_def Let_def)
  then show ?thesis
    using r(2,3) by (simp add: udp_payload_lengths_def new_datagrams_def comp_def)
qed

subsection \<open>The arithmetic of the segment count\<close>

lemma total_segments_ceiling:
  "(fs + segment_size - 1) div segment_size = \<lceil>real_of_int fs / 1024\<rceil>"
proof -
  have "\<lceil>real_of_int fs / real_of_int 1024\<rceil> = - (- fs div 1024)"
    by (rule ceiling_divide_eq_div)
  also have "\<dots> = (fs + 1024 - 1) div 1024" by linarith
  finally show ?thesis by (simp add: segment_size_def)
qed

lemma total_segments_lower:
  "int (Suc i) \<le> (fs + segment_size - 1) div segment_size \<Longrightarrow> int i * 1024 < fs"
  unfolding segment_size_def by linarith

lemma total_segments_upper:
  "fs \<le> ((fs + segment_size - 1) div segment_size) * 1024"
  unfolding segment_size_def by linarith

lemma seg_len_full:
  assumes "int (Suc (Suc i)) \<le> (fs + segment_size - 1) div segment_size"
  shows "seg_len fs (int i) = 1024"
proof -
  have "int (Suc i) * 1024 < fs" by (rule total_segments_lower[OF assms])
  then show ?thesis by (simp add: seg_len_def segment_size_def)
qed

lemma seg_len_last:
  assumes "int (Suc i) = (fs + segment_size - 1) div segment_size"
  shows "int (seg_len fs (int i)) = fs - int i * 1024"
proof -
  have "int i * 1024 < fs" by (rule total_segments_lower) (use assms in simp)
  moreover have "fs \<le> int (Suc i) * 1024" using total_segments_upper[of fs] assms by simp
  ultimately show ?thesis by (simp add: seg_len_def segment_size_def)
qed

lemma sum_seg_len_prefix:
  assumes "int k \<le> (fs + segment_size - 1) div segment_size" "0 \<le> fs"
  shows "int (sum_list (map (seg_len fs) (map int [0..<k]))) = min fs (int k * 1024)"
  using assms(1)
proof (induction k)
  case 0
  then show ?case using assms(2) by simp
next
  case (Suc k)
  then have IH: "int (sum_list (map (seg_len fs) (map int [0..<k]))) = min fs (int k * 1024)"
    by simp
  have lt: "int k * 1024 < fs" by (rule total_segments_lower[OF Suc.prems])
  have "int (seg_len fs (int k)) = min 1024 (fs - int k * 1024)"
    using lt by (simp add: seg_len_def segment_size_def)
  then show ?case using IH lt by (simp add: min_def)
qed

lemma sum_seg_len_all:
  assumes "0 \<le> fs"
  shows "int (sum_list (map (seg_len fs) (py_range ((fs + segment_size - 1) div segment_size)))) = fs"
proof -
  let ?t = "(fs + segment_size - 1) div segment_size"
  have t: "0 \<le> ?t" using assms by (simp add: segment_size_def)
  have "int (sum_list (map (seg_len fs) (map int [0..<nat ?t]))) = min fs (int (nat ?t) * 1024)"
    by (rule sum_seg_len_prefix) (use t assms in simp_all)
  moreover have "fs \<le> ?t * 1024" by (rule total_segments_upper)
  ultimately show ?thesis using t by (simp add: py_range_def)
qed

text \<open>
  Claim C3. For every file size that a Request can carry (\<open>0 \<le> file_size < 2 ^ 64\<close>, the
  field is unsigned 64-bit) and a socket that accepts every datagram, \<open>_handle_udp_client\<close>
  sends exactly \<open>\<lceil>file_size / 1024\<rceil>\<close> datagrams, their payload lengths add up to
  \<open>file_size\<close>, every payload but the last has 1024 bytes, the last one has
  \<open>file_size - (n - 1) * 1024\<close> bytes, and nothing is sent for \<open>file_size = 0\<close>.
\<close>

theorem C3_udp_handler_segments:
  assumes "0 \<le> file_size" and "file_size < 2 ^ 64" and "\<forall>k. send_ok e k"
  shows "let lens = udp_payload_lengths e a file_size s; n = length lens in
           int n = \<lceil>real_of_int file_size / 1024\<rceil>
         \<and> int (sum_list lens) = file_size
         \<and> (\<forall>i. Suc i < n \<longrightarrow> lens ! i = 1024)
         \<and> (0 < n \<longrightarrow> int (last lens) = file_size - (int n - 1) * 1024)
         \<and> (file_size = 0 \<longrightarrow> n = 0)"
proof -
  let ?t = "(file_size + segment_size - 1) div segment_size"
  let ?lens = "udp_payload_lengths e a file_size s"
  have t: "0 \<le> ?t" using assms(1) by (simp add: segment_size_def)
  have eq: "?lens = map (seg_len file_size) (map int [0..<nat ?t])"
    using udp_payload_lengths_eq[OF assms] by (simp add: py_range_def)
  have len: "int (length ?lens) = ?t" using eq t by simp
  have c1: "int (length ?lens) = \<lceil>real_of_int file_size / 1024\<rceil>"
    using len total_segments_ceiling[of file_size] by simp
  have c2: "int (sum_list ?lens) = file_size"
    using sum_seg_len_all[OF assms(1)] eq by (simp add: py_range_def)
  have c3: "?lens ! i = 1024" if "Suc i < length ?lens" for i
  proof -
    have "int (Suc (Suc i)) \<le> ?t" using that len by linarith
    then have "seg_len file_size (int i) = 1024" by (rule seg_len_full)
    moreover have "?lens ! i = seg_len file_size (int i)"
      using that eq by simp
    ultimately show ?thesis by simp
  qed
  have c4: "int (last ?lens) = file_size - (int (length ?lens) - 1) * 1024"
    if pos: "0 < length ?lens"
  proof -
    obtain m where m: "length ?lens = Suc m" using gr0_implies_Suc[OF pos] by (elim exE)
    have ne: "?lens \<noteq> []" using pos by auto
    have mt: "int (Suc m) = ?t" using m len by linarith
    have "last ?lens = ?lens ! (length ?lens - 1)" using ne by (rule last_conv_nth)
    also have "\<dots> = ?lens ! m" unfolding m by simp
    also have "\<dots> = seg_len file_size (int m)"
    proof -
      have "m < nat ?t" using mt by linarith
      then show ?thesis unfolding eq by simp
    qed
    finally have "int (last ?lens) = int (seg_len file_size (int m))" by simp
    also have "\<dots> = file_size - int m * 1024" by (rule seg_len_last[OF mt])
    finally show ?thesis unfolding m by simp
  qed
  have c5: "length ?lens = 0" if "file_size = 0"
    using that len by (simp add: segment_size_def)
  show ?thesis
    unfolding Let_def
    by (intro conjI allI impI) (rule c1 c2 c3 c4 c5; assumption)+
qed

theorem C3_udp_handler_segments_witness:
  "int (length (udp_payload_lengths reliable_env client_addr 2500 fresh_out)) = 3
   \<and> int (sum_list (udp_payload_lengths reliable_env client_addr 2500 fresh_out)) = 2500
   \<and> int (last (udp_payload_lengths reliable_env client_addr 2500 fresh_out)) = 452"
proof -
  let ?lens = "udp_payload_lengths reliable_env client_addr 2500 fresh_out"
  have ok: "\<forall>k. send_ok reliable_env k" by (simp add: reliable_env_def)
  have "let lens = ?lens; n = length lens in
           int n = \<lceil>real_of_int 2500 / 1024\<rceil>
         \<and> int (sum_list lens) = 2500
         \<and> (\<forall>i. Suc i < n \<longrightarrow> lens ! i = 1024)
         \<and> (0 < n \<longrightarrow> int (last lens) = 2500 - (int n - 1) * 1024)
         \<and> ((2500::int) = 0 \<longrightarrow> n = 0)"
    by (rule C3_udp_handler_segments [of 2500 reliable_env client_addr fresh_out])
       (simp_all add: ok)
  then have th: "int (length ?lens) = \<lceil>real_of_int 2500 / 1024\<rceil>
         \<and> int (sum_list ?lens) = 2500
         \<and> (\<forall>i. Suc i < length ?lens \<longrightarrow> ?lens ! i = 1024)
         \<and> (0 < length ?lens \<longrightarrow> int (last ?lens) = 2500 - (int (length ?lens) - 1) * 1024)
         \<and> ((2500::int) = 0 \<longrightarrow> length ?lens = 0)"
    unfolding Let_def .
  have c: "\<lceil>real_of_int 2500 / 1024\<rceil> = 3" by simp
  have n: "int (length ?lens) = 3" using th c by (elim conjE) (rule trans)
  have total: "int (sum_list ?lens) = 2500" using th by (elim conjE)
  have "0 < length ?lens" using n by linarith
  then have "int (last ?lens) = 2500 - (int (length ?lens) - 1) * 1024"
    using th by (elim conjE) (erule (1) mp)
  then have l: "int (last ?lens) = 452" unfolding n by simp
  show ?thesis using n total l by (intro conjI)
qed

section \<open>Client: the offer listener returns on a valid Offer and on nothing else\<close>

lemma offer_of_Datagram:
  "offer_of (Datagram data a) =
     (if malformed 9 OFFER_MSG_TYPE data then None
      else Some (fst a, be_int (take 2 (drop 5 data)), be_int (take 2 (drop 7 data))))"
  by (simp add: offer_of_def offer_try_def malformed_def unpack_IbHH_def drop_take min_def)

lemma offer_of_None_iff: "offer_of ev = None \<longleftrightarrow> no_offer ev"
  by (cases ev) (simp_all add: offer_of_Datagram no_offer_def, simp add: offer_of_def offer_try_def)

lemma wait_for_offer_skip:
  "offer_of (recvfrom i) = None \<Longrightarrow> wait_for_offer recvfrom i = wait_for_offer recvfrom (Suc i)"
  by (subst wait_for_offer.simps) simp

lemma wait_for_offer_return:
  "offer_of (recvfrom i) = Some r \<Longrightarrow> wait_for_offer recvfrom i = Some r"
  by (subst wait_for_offer.simps) simp

lemma wait_for_offer_first:
  assumes "\<forall>j. i \<le> j \<and> j < i + n \<longrightarrow> offer_of (recvfrom j) = None"
    and "offer_of (recvfrom (i + n)) = Some r"
  shows "wait_for_offer recvfrom i = Some r"
  using assms
proof (induction n arbitrary: i)
  case 0
  then show ?case by (simp add: wait_for_offer_return)
next
  case (Suc n)
  have "offer_of (recvfrom i) = None" using Suc.prems(1) by simp
  then have "wait_for_offer recvfrom i = wait_for_offer recvfrom (Suc i)"
    by (rule wait_for_offer_skip)
  also have "\<dots> = Some r"
  proof (rule Suc.IH)
    show "\<forall>j. Suc i \<le> j \<and> j < Suc i + n \<longrightarrow> offer_of (recvfrom j) = None"
      using Suc.prems(1) by simp
    show "offer_of (recvfrom (Suc i + n)) = Some r" using Suc.prems(2) by simp
  qed
  finally show ?case .
qed

lemma wait_for_offer_Some_has_offer:
  assumes ret: "wait_for_offer recvfrom i = Some r"
  shows "\<exists>j. offer_of (recvfrom j) \<noteq> None"
proof (rule wait_for_offer.raw_induct
         [where P = "\<lambda>rf i r. \<exists>j. offer_of (rf j) \<noteq> None", OF _ ret])
  fix w :: "(nat \<Rightarrow> udp_recv) \<Rightarrow> nat \<Rightarrow> (string \<times> int \<times> int) option"
    and rf :: "nat \<Rightarrow> udp_recv" and i :: nat and r :: "string \<times> int \<times> int"
  assume IH: "\<And>rf i r. w rf i = Some r \<Longrightarrow> \<exists>j. offer_of (rf j) \<noteq> None"
    and eq: "(case offer_of (rf i) of None \<Rightarrow> w rf (Suc i) | Some r \<Rightarrow> Some r) = Some r"
  show "\<exists>j. offer_of (rf j) \<noteq> None"
  proof (cases "offer_of (rf i)")
    case None
    have "w rf (Suc i) = Some r" using eq unfolding None by simp
    then show ?thesis by (rule IH)
  next
    case (Some x)
    then show ?thesis by (intro exI[of _ i]) simp
  qed
qed

lemma wait_for_offer_never:
  assumes "\<forall>j. offer_of (recvfrom j) = None"
  shows "wait_for_offer recvfrom i = None"
proof (cases "wait_for_offer recvfrom i")
  case None
  then show ?thesis .
next
  case (Some r)
  then have "\<exists>j. offer_of (recvfrom j) \<noteq> None" by (rule wait_for_offer_Some_has_offer)
  with assms show ?thesis by simp
qed


lemma offer_bytes_wellformed: "\<not> malformed 9 OFFER_MSG_TYPE offer_bytes"
  by (simp add: malformed_def offer_bytes_def be_int_def MAGIC_COOKIE_def OFFER_MSG_TYPE_def)

lemma offer_bytes_ports:
  "be_int (take 2 (drop 5 offer_bytes)) = 8080" "be_int (take 2 (drop 7 offer_bytes)) = 9000"
  by (simp_all add: offer_bytes_def be_int_def)


text \<open>
  Claim C2, as stated, fails: with no valid Offer the listener does not report a failure to
  its caller. On a socket where every \<open>recvfrom\<close> times out, the \<open>except\<close> branch of the
  loop catches each timeout and the loop goes on: the listener never returns.
\<close>

theorem C2_listener_never_reports_no_offer: "wait_for_offer silent_socket 0 = None"
  by (rule wait_for_offer_never) (simp add: silent_socket_def offer_of_def offer_try_def)


text \<open>
  Claim C2, amended. A timeout, another exception of \<open>recvfrom\<close> and a malformed datagram
  all leave the listener in its loop. When the first receive that is none of these yields
  a datagram of at least 9 bytes with the magic cookie and the Offer type, the listener
  returns the sender's address and the two ports of that datagram; when no such datagram
  ever arrives, the listener never returns.
\<close>

theorem C2_listener_returns_only_on_offer:
  "((\<forall>j<k. no_offer (recvfrom j)) \<and> recvfrom k = Datagram data a
      \<and> \<not> malformed 9 OFFER_MSG_TYPE data
     \<longrightarrow> wait_for_offer recvfrom 0
           = Some (fst a, be_int (take 2 (drop 5 data)), be_int (take 2 (drop 7 data))))
   \<and> ((\<forall>j. no_offer (recvfrom j)) \<longrightarrow> wait_for_offer recvfrom 0 = None)"
proof (intro conjI impI)
  assume h: "(\<forall>j<k. no_offer (recvfrom j)) \<and> recvfrom k = Datagram data a
      \<and> \<not> malformed 9 OFFER_MSG_TYPE data"
  show "wait_for_offer recvfrom 0
           = Some (fst a, be_int (take 2 (drop 5 data)), be_int (take 2 (drop 7 data)))"
  proof (rule wait_for_offer_first[where n = k])
    show "\<forall>j. 0 \<le> j \<and> j < 0 + k \<longrightarrow> offer_of (recvfrom j) = None"
      using h by (simp add: offer_of_None_iff)
    show "offer_of (recvfrom (0 + k))
           = Some (fst a, be_int (take 2 (drop 5 data)), be_int (take 2 (drop 7 data)))"
      using h by (simp add: offer_of_Datagram)
  qed
next
  assume "\<forall>j. no_offer (recvfrom j)"
  then have "\<forall>j. offer_of (recvfrom j) = None" by (simp add: offer_of_None_iff)
  then show "wait_for_offer recvfrom 0 = None" by (rule wait_for_offer_never)
qed

theorem C2_listener_returns_only_on_offer_witness:
  "wait_for_offer offer_after_noise 0 = Some (''10.0.0.1'', 8080, 9000)
   \<and> wait_for_offer silent_socket 0 = None"
proof -
  have noise: "\<forall>j<3. no_offer (offer_after_noise j)"
    by (auto simp: offer_after_noise_def no_offer_def malformed_def)
  have at3: "offer_after_noise 3 = Datagram offer_bytes server_addr"
    by (simp add: offer_after_noise_def)
  have silent: "\<forall>j. no_offer (silent_socket j)"
    by (simp add: silent_socket_def no_offer_def)
  have "wait_for_offer offer_after_noise 0
          = Some (fst server_addr, be_int (take 2 (drop 5 offer_bytes)),
                  be_int (take 2 (drop 7 offer_bytes)))"
    using C2_listener_returns_only_on_offer
            [where recvfrom = offer_after_noise and k = 3 and data = offer_bytes
               and a = server_addr]
          noise at3 offer_bytes_wellformed
    by blast
  then have a: "wait_for_offer offer_after_noise 0 = Some (''10.0.0.1'', 8080, 9000)"
    by (simp add: offer_bytes_ports server_addr_def)
  have b: "wait_for_offer silent_socket 0 = None"
    using C2_listener_returns_only_on_offer [where recvfrom = silent_socket] silent
    by blast
  from a b show ?thesis by (rule conjI)
qed

section \<open>Client: the UDP receive loop\<close>

subsection \<open>What a datagram does to the state\<close>

lemma be_int_foldl_nonneg: "0 \<le> acc \<Longrightarrow> 0 \<le> foldl (\<lambda>acc b. acc * 256 + uint b) acc (bs :: byte list)"
  by (induction bs arbitrary: acc) simp_all

lemma be_int_nonneg: "0 \<le> be_int bs"
  by (simp add: be_int_def be_int_foldl_nonneg)

lemma on_datagram_malformed:
  "malformed 21 PAYLOAD_MSG_TYPE data \<Longrightarrow> on_datagram data t st = Inr (st\<lparr>last_packet_time := t\<rparr>)"
  by (auto simp: on_datagram_def malformed_def unpack_IbQQ_def Let_def)

lemma on_datagram_segment:
  assumes "segment_of data = Some (total_segs, seg_num, payload)"
  shows "on_datagram data t st =
     Inr (st\<lparr>last_packet_time := t,
             total_segments := (if total_segments st = None then Some total_segs else total_segments st),
             segments_received := insert seg_num (segments_received st),
             bytes_received := (if seg_num \<in> segments_received st then bytes_received st
                                else bytes_received st + int (length payload))\<rparr>)"
proof -
  have wf: "\<not> malformed 21 PAYLOAD_MSG_TYPE data"
    and f: "total_segs = be_int (take 8 (drop 5 data))" "seg_num = be_int (take 8 (drop 13 data))"
           "payload = drop 21 data"
    using assms by (auto simp: segment_of_def split: if_splits)
  from wf have len: "21 \<le> length data" and m: "be_int (take 4 data) = MAGIC_COOKIE"
    and ty: "sint (data ! 4) = PAYLOAD_MSG_TYPE"
    by (auto simp: malformed_def)
  show ?thesis
    using len m ty unfolding f
    by (simp add: on_datagram_def unpack_IbQQ_def Let_def drop_take min_def insert_absorb)
qed

lemma on_datagram_total: "\<exists>st'. on_datagram data t st = Inr st'"
proof (cases "segment_of data")
  case None
  then have "malformed 21 PAYLOAD_MSG_TYPE data" by (simp add: segment_of_def split: if_splits)
  then show ?thesis by (simp add: on_datagram_malformed)
next
  case (Some seg)
  then show ?thesis by (cases seg) (simp add: on_datagram_segment)
qed

subsection \<open>The inactivity deadline\<close>

text \<open>
  Every datagram, valid or not, new or duplicate, moves \<open>last_packet_time\<close> to the clock
  reading taken on its receipt; the loop breaks when the clock at its head is more than one
  second past that reading; a timeout of \<open>recvfrom\<close> changes nothing.
\<close>

lemma on_datagram_sets_last_packet_time:
  assumes "on_datagram data t st = Inr st'"
  shows "last_packet_time st' = t"
proof (cases "segment_of data")
  case None
  then have "malformed 21 PAYLOAD_MSG_TYPE data" by (simp add: segment_of_def split: if_splits)
  then show ?thesis using assms by (auto simp: on_datagram_malformed)
next
  case (Some seg)
  then show ?thesis using assms by (cases seg) (auto simp: on_datagram_segment)
qed

lemma udp_receive_loop_break:
  "clock_top p - last_packet_time st > 1 \<Longrightarrow> udp_receive_loop (p # ps) st = Some (Inr st)"
  by simp

lemma udp_receive_loop_timeout:
  "clock_top p - last_packet_time st \<le> 1 \<Longrightarrow> recv p = RecvFails SocketTimeout \<Longrightarrow>
   udp_receive_loop (p # ps) st = udp_receive_loop ps st"
  by simp

subsection \<open>What the loop keeps true\<close>

lemma valid_segments_Cons_fail [simp]:
  "recv p = RecvFails err \<Longrightarrow> valid_segments (p # ps) = valid_segments ps"
  by simp

lemma valid_segments_Cons_malformed:
  "recv p = Datagram data a \<Longrightarrow> segment_of data = None \<Longrightarrow> valid_segments (p # ps) = valid_segments ps"
  by simp

lemma valid_segments_Cons_segment:
  "recv p = Datagram data a \<Longrightarrow> segment_of data = Some seg \<Longrightarrow> valid_segments (p # ps) = seg # valid_segments ps"
  by simp

lemma udp_receive_loop_Cons:
  "udp_receive_loop (p # ps) st = Some (Inr st') \<Longrightarrow>
     (clock_top p - last_packet_time st > 1 \<and> st' = st)
   \<or> (\<not> clock_top p - last_packet_time st > 1 \<and> recv p = RecvFails SocketTimeout
        \<and> udp_receive_loop ps st = Some (Inr st'))
   \<or> (\<not> clock_top p - last_packet_time st > 1
        \<and> (\<exists>data a st1. recv p = Datagram data a \<and> on_datagram data (clock_recv p) st = Inr st1
              \<and> udp_receive_loop ps st1 = Some (Inr st')))"
  by (auto split: if_splits udp_recv.splits sum.splits)

lemma udp_receive_loop_invariant:
  assumes "udp_receive_loop ps st = Some (Inr st')" and "finite (segments_received st)"
  shows "finite (segments_received st')
       \<and> segments_received st' \<subseteq> segments_received st \<union> (fst \<circ> snd) ` set (valid_segments ps)
       \<and> (total_segments st \<noteq> None \<longrightarrow> total_segments st' = total_segments st)
       \<and> (total_segments st = None \<longrightarrow> total_segments st' = None \<or> total_segments st' = first_total ps)"
  using assms
proof (induction ps arbitrary: st)
  case Nil
  then show ?case by simp
next
  case (Cons p ps)
  let ?goal = "\<lambda>ps. finite (segments_received st')
       \<and> segments_received st' \<subseteq> segments_received st \<union> (fst \<circ> snd) ` set (valid_segments ps)
       \<and> (total_segments st \<noteq> None \<longrightarrow> total_segments st' = total_segments st)
       \<and> (total_segments st = None \<longrightarrow> total_segments st' = None \<or> total_segments st' = first_total ps)"
  from udp_receive_loop_Cons[OF Cons.prems(1)]
  consider (brk) "st' = st"
    | (tmo) "recv p = RecvFails SocketTimeout" "udp_receive_loop ps st = Some (Inr st')"
    | (dgm) data a st1 where "recv p = Datagram data a"
        "on_datagram data (clock_recv p) st = Inr st1" "udp_receive_loop ps st1 = Some (Inr st')"
    by blast
  then show ?case
  proof cases
    case brk
    then show ?thesis using Cons.prems(2) by simp
  next
    case tmo
    have "?goal ps" using Cons.IH[OF tmo(2) Cons.prems(2)] .
    then show ?thesis using tmo(1) by (simp add: first_total_def)
  next
    case dgm
    show ?thesis
    proof (cases "segment_of data")
      case None
      then have "malformed 21 PAYLOAD_MSG_TYPE data" by (simp add: segment_of_def split: if_splits)
      then have st1: "st1 = st\<lparr>last_packet_time := clock_recv p\<rparr>"
        using dgm(2) by (simp add: on_datagram_malformed)
      have "finite (segments_received st1)" using st1 Cons.prems(2) by simp
      from Cons.IH[OF dgm(3) this] have "?goal ps" unfolding st1 by simp
      then show ?thesis using dgm(1) None by (simp add: first_total_def)
    next
      case (Some seg)
      obtain total_segs seg_num payload where seg: "seg = (total_segs, seg_num, payload)"
        by (cases seg)
      have st1: "st1 = st\<lparr>last_packet_time := clock_recv p,
             total_segments := (if total_segments st = None then Some total_segs else total_segments st),
             segments_received := insert seg_num (segments_received st),
             bytes_received := (if seg_num \<in> segments_received st then bytes_received st
                                else bytes_received st + int (length payload))\<rparr>"
        using dgm(2) on_datagram_segment[OF Some[unfolded seg]] by simp
      have fin: "finite (segments_received st1)" using st1 Cons.prems(2) by simp
      have vs: "valid_segments (p # ps) = (total_segs, seg_num, payload) # valid_segments ps"
        using dgm(1) Some seg by simp
      have ft: "first_total (p # ps) = Some total_segs" unfolding first_total_def vs by simp
      from Cons.IH[OF dgm(3) fin]
      have ih: "finite (segments_received st')"
        "segments_received st' \<subseteq> segments_received st1 \<union> (fst \<circ> snd) ` set (valid_segments ps)"
        "total_segments st1 \<noteq> None \<longrightarrow> total_segments st' = total_segments st1"
        by blast+
      have t1: "total_segments st1 = (if total_segments st = None then Some total_segs else total_segments st)"
        and s1: "segments_received st1 = insert seg_num (segments_received st)"
        unfolding st1 by simp_all
      have a: "segments_received st' \<subseteq> segments_received st \<union> (fst \<circ> snd) ` set (valid_segments (p # ps))"
        using ih(2) unfolding s1 vs by auto
      have b: "total_segments st \<noteq> None \<longrightarrow> total_segments st' = total_segments st"
        using ih(3) unfolding t1 by simp
      have c: "total_segments st = None \<longrightarrow> total_segments st' = None \<or> total_segments st' = first_total (p # ps)"
        using ih(3) unfolding t1 ft by simp
      show ?thesis using ih(1) a b c by blast
    qed
  qed
qed

subsection \<open>The success rate\<close>

lemma segment_of_number_nonneg:
  "segment_of data = Some (total_segs, seg_num, payload) \<Longrightarrow> 0 \<le> seg_num"
  by (auto simp: segment_of_def be_int_nonneg split: if_splits)

lemma valid_segments_numbers_nonneg:
  "(total_segs, seg_num, payload) \<in> set (valid_segments ps) \<Longrightarrow> 0 \<le> seg_num"
proof (induction ps)
  case Nil
  then show ?case by simp
next
  case (Cons p ps)
  then show ?case
    by (auto split: udp_recv.splits option.splits dest: segment_of_number_nonneg)
qed

lemma card_below_total:
  assumes "S \<subseteq> {0..<T}" 
  shows "int (card S) \<le> T \<or> T < 0"
proof -
  have "card S \<le> card {0..<T}" by (rule card_mono) (use assms in simp_all)
  then have "card S \<le> nat T" by simp
  then show ?thesis by linarith
qed

lemma success_rate_bounded:
  assumes "segments_received st \<subseteq> {0..<T}" and "total_segments st = Some T"
  shows "\<exists>rate. success_rate_of st = Inr rate \<and> rate \<le> 100"
proof (cases "T = 0")
  case True
  then show ?thesis using assms(2) by (simp add: success_rate_of_def)
next
  case False
  show ?thesis
  proof (cases "T < 0")
    case True
    then have "segments_received st = {}" using assms(1) by simp
    then show ?thesis using assms(2) False by (simp add: success_rate_of_def py_truediv_def)
  next
    case F2: False
    then have pos: "0 < T" using False by simp
    have "int (card (segments_received st)) \<le> T"
      using card_below_total[OF assms(1)] F2 by simp
    then have "real (card (segments_received st)) \<le> real_of_int T" by linarith
    then have "real (card (segments_received st)) / real_of_int T \<le> 1"
      using pos by (simp add: divide_le_eq)
    then have "real (card (segments_received st)) / real_of_int T * 100 \<le> 1 * 100"
      by (rule mult_right_mono) simp
    then have "success_rate_of st = Inr (real (card (segments_received st)) / real_of_int T * 100)
               \<and> real (card (segments_received st)) / real_of_int T * 100 \<le> 100"
      using assms(2) False by (simp add: success_rate_of_def py_truediv_def)
    then show ?thesis by blast
  qed
qed

lemma success_rate_no_total:
  "total_segments st = None \<Longrightarrow> success_rate_of st = Inr 0"
  by (simp add: success_rate_of_def)

lemma numbers_below_first_total:
  assumes "numbers_below_total ps" and "first_total ps = Some T"
  shows "(fst \<circ> snd) ` set (valid_segments ps) \<subseteq> {0..<T}"
proof
  fix n assume "n \<in> (fst \<circ> snd) ` set (valid_segments ps)"
  then obtain t p where mem: "(t, n, p) \<in> set (valid_segments ps)" by force
  have "0 \<le> n" using mem by (rule valid_segments_numbers_nonneg)
  moreover have "n < T"
    using assms mem
    by (auto simp: numbers_below_total_def first_total_def list_all_iff split: list.splits)
  ultimately show "n \<in> {0..<T}" by simp
qed

lemma udp_loop_rate_bounded:
  assumes loop: "udp_receive_loop ps (udp_client_init t0) = Some (Inr st)"
    and below: "numbers_below_total ps"
  shows "\<exists>rate. success_rate_of st = Inr rate \<and> rate \<le> 100"
proof -
  have fin: "finite (segments_received (udp_client_init t0))" by (simp add: udp_client_init_def)
  from udp_receive_loop_invariant[OF loop fin]
  have sub: "segments_received st \<subseteq> (fst \<circ> snd) ` set (valid_segments ps)"
    and tot: "total_segments st = None \<or> total_segments st = first_total ps"
    by (simp_all add: udp_client_init_def)
  show ?thesis
  proof (cases "total_segments st")
    case None
    then show ?thesis by (simp add: success_rate_no_total)
  next
    case (Some T)
    with tot have "first_total ps = Some T" by simp
    from numbers_below_first_total[OF below this] sub
    have "segments_received st \<subseteq> {0..<T}" by blast
    then show ?thesis using Some by (rule success_rate_bounded)
  qed
qed

lemma udp_transfer_report:
  assumes "udp_transfer file_size sendto_ok start_time t0 passes end_time = Some (Inr report)"
  shows "\<exists>st. udp_receive_loop passes (udp_client_init t0) = Some (Inr st)
              \<and> success_rate_of st = Inr (udp_success_rate report)"
  using assms
  by (auto simp: udp_transfer_def Let_def split: sum.splits option.splits if_splits)


lemmas udp_example_defs =
  pack_IbQ_def fits_unsigned_def fits_b_def pass_with_def pass_timeout_def udp_client_init_def
  on_datagram_def unpack_IbQQ_def segment_0_of_1_def segment_1_of_1_def segment_0_of_0_def
  be_int_def MAGIC_COOKIE_def PAYLOAD_MSG_TYPE_def REQUEST_MSG_TYPE_def Let_def
  success_rate_of_def py_truediv_def segment_of_def malformed_def

lemma duplicate_run:
  "udp_transfer 1 True 0 0 duplicate_passes 1.3
   = Some (Inr \<lparr>udp_duration = 1.3, udp_speed = 8 / 1300000, udp_success_rate = 100\<rparr>)"
  by (simp add: udp_transfer_def duplicate_passes_def udp_example_defs)

lemma duplicate_passes_below: "numbers_below_total duplicate_passes"
  by (simp add: numbers_below_total_def duplicate_passes_def udp_example_defs)

lemma segment_0_of_1_fields: "segment_of segment_0_of_1 = Some (1, 0, [0x55])"
  by (simp add: udp_example_defs)


lemma success_rate_total: "\<exists>rate. success_rate_of st = Inr rate"
  by (simp add: success_rate_of_def py_truediv_def split: option.splits)

lemma success_rate_zero_total:
  "total_segments st = Some 0 \<Longrightarrow> success_rate_of st = Inr 0"
  by (simp add: success_rate_of_def)


lemma silent_run:
  "udp_receive_loop silent_passes (udp_client_init 0) = Some (Inr (udp_client_init 0))"
  by (simp add: silent_passes_def udp_example_defs)

lemma silent_passes_no_total: "first_total silent_passes = None"
  by (simp add: first_total_def silent_passes_def udp_example_defs)

lemma zero_total_run:
  "udp_receive_loop zero_total_passes (udp_client_init 0)
   = Some (Inr \<lparr>bytes_received = 0, segments_received = {0}, total_segments = Some 0,
                last_packet_time = 0.1\<rparr>)"
  by (simp add: zero_total_passes_def udp_example_defs)

lemma zero_total_passes_total: "first_total zero_total_passes = Some 0"
  by (simp add: first_total_def zero_total_passes_def udp_example_defs)


text \<open>
  Claim C5, as stated, fails in its second half: the success rate can exceed 100. The
  first valid segment fixes \<open>total_segments = 1\<close>; a second datagram with segment number 1
  is counted as well, and the report says 200 percent.
\<close>

theorem C5_success_rate_can_exceed_100:
  "udp_transfer 1 True 0 0 overshoot_passes 1.3
     = Some (Inr \<lparr>udp_duration = 1.3, udp_speed = 16 / 1300000, udp_success_rate = 200\<rparr>)
   \<and> \<not> udp_success_rate
         \<lparr>udp_duration = 1.3, udp_speed = 16 / 1300000, udp_success_rate = 200\<rparr> \<le> 100"
  by (simp add: udp_transfer_def pack_IbQ_def fits_unsigned_def fits_b_def
      overshoot_passes_def pass_with_def pass_timeout_def udp_client_init_def on_datagram_def unpack_IbQQ_def
      segment_0_of_1_def segment_1_of_1_def be_int_def MAGIC_COOKIE_def PAYLOAD_MSG_TYPE_def
      REQUEST_MSG_TYPE_def Let_def success_rate_of_def py_truediv_def)


text \<open>
  Claim C5, amended. A datagram whose segment number is already in \<open>segments_received\<close>
  changes neither the byte count nor the set; and when every valid segment received
  carries a number below the total declared by the first valid one (as the segments of one
  server transfer do), the reported success rate is at most 100.
\<close>

theorem C5_duplicate_adds_nothing_rate_bounded:
  "(segment_of data = Some (total_segs, seg_num, payload) \<and> seg_num \<in> segments_received st
      \<longrightarrow> (\<exists>st'. on_datagram data t st = Inr st'
                 \<and> bytes_received st' = bytes_received st
                 \<and> segments_received st' = segments_received st))
   \<and> (udp_transfer file_size sendto_ok start_time t0 passes end_time = Some (Inr report)
        \<and> numbers_below_total passes
      \<longrightarrow> udp_success_rate report \<le> 100)"
proof (intro conjI impI)
  assume h: "segment_of data = Some (total_segs, seg_num, payload) \<and> seg_num \<in> segments_received st"
  then show "\<exists>st'. on_datagram data t st = Inr st'
                 \<and> bytes_received st' = bytes_received st
                 \<and> segments_received st' = segments_received st"
    by (simp add: on_datagram_segment insert_absorb)
next
  assume h: "udp_transfer file_size sendto_ok start_time t0 passes end_time = Some (Inr report)
        \<and> numbers_below_total passes"
  then obtain st where st: "udp_receive_loop passes (udp_client_init t0) = Some (Inr st)"
      "success_rate_of st = Inr (udp_success_rate report)"
    using udp_transfer_report by blast
  from udp_loop_rate_bounded[OF st(1)] h
  obtain rate where "success_rate_of st = Inr rate" "rate \<le> 100" by blast
  with st(2) show "udp_success_rate report \<le> 100" by simp
qed

theorem C5_duplicate_adds_nothing_rate_bounded_witness:
  "(\<exists>st'. on_datagram segment_0_of_1 0.2 seen_0 = Inr st'
           \<and> bytes_received st' = bytes_received seen_0
           \<and> segments_received st' = segments_received seen_0)
   \<and> udp_transfer 1 True 0 0 duplicate_passes 1.3
       = Some (Inr \<lparr>udp_duration = 1.3, udp_speed = 8 / 1300000, udp_success_rate = 100\<rparr>)
   \<and> udp_success_rate \<lparr>udp_duration = 1.3, udp_speed = 8 / 1300000, udp_success_rate = 100\<rparr>
       \<le> 100"
proof -
  note t = C5_duplicate_adds_nothing_rate_bounded
             [where data = segment_0_of_1 and total_segs = 1 and seg_num = 0 and payload = "[0x55]"
                and st = seen_0 and t = "0.2" and file_size = 1 and sendto_ok = True
                and start_time = 0 and ?t0.0 = 0 and passes = duplicate_passes and end_time = "1.3"
                and report = "\<lparr>udp_duration = 1.3, udp_speed = 8 / 1300000, udp_success_rate = 100\<rparr>"]
  have seen: "(0::int) \<in> segments_received seen_0" by (simp add: seen_0_def)
  have a: "\<exists>st'. on_datagram segment_0_of_1 0.2 seen_0 = Inr st'
           \<and> bytes_received st' = bytes_received seen_0
           \<and> segments_received st' = segments_received seen_0"
    using t segment_0_of_1_fields seen by blast
  have b: "udp_success_rate \<lparr>udp_duration = 1.3, udp_speed = 8 / 1300000, udp_success_rate = 100\<rparr>
       \<le> 100"
    using t duplicate_run duplicate_passes_below by blast
  from a duplicate_run b show ?thesis by (intro conjI)
qed

text \<open>
  Claim C9. The success-rate computation always yields a number, never
  \<open>ZeroDivisionError\<close>; it is 0 when \<open>total_segments\<close> is still \<open>None\<close> or is 0, and the
  loop ends in such a state whenever no valid segment arrived or the first valid segment
  declared a total of 0.
\<close>

theorem C9_success_rate_never_divides_by_zero:
  "(\<exists>rate. success_rate_of st = Inr rate)
   \<and> (total_segments st = None \<or> total_segments st = Some 0 \<longrightarrow> success_rate_of st = Inr 0)
   \<and> (udp_receive_loop passes (udp_client_init t0) = Some (Inr st_end)
        \<and> (first_total passes = None \<or> first_total passes = Some 0)
      \<longrightarrow> success_rate_of st_end = Inr 0)"
proof (intro conjI impI)
  show "\<exists>rate. success_rate_of st = Inr rate" by (rule success_rate_total)
next
  assume "total_segments st = None \<or> total_segments st = Some 0"
  then show "success_rate_of st = Inr 0"
    using success_rate_no_total success_rate_zero_total by blast
next
  assume h: "udp_receive_loop passes (udp_client_init t0) = Some (Inr st_end)
        \<and> (first_total passes = None \<or> first_total passes = Some 0)"
  have fin: "finite (segments_received (udp_client_init t0))" by (simp add: udp_client_init_def)
  from h have loop: "udp_receive_loop passes (udp_client_init t0) = Some (Inr st_end)" by simp
  from udp_receive_loop_invariant[OF loop fin]
  have "total_segments st_end = None \<or> total_segments st_end = first_total passes"
    by (simp add: udp_client_init_def)
  with h have "total_segments st_end = None \<or> total_segments st_end = Some 0" by auto
  then show "success_rate_of st_end = Inr 0"
    using success_rate_no_total success_rate_zero_total by blast
qed


theorem C9_success_rate_never_divides_by_zero_witness:
  "success_rate_of (udp_client_init 0) = Inr 0
   \<and> success_rate_of \<lparr>bytes_received = 0, segments_received = {0}, total_segments = Some 0,
                       last_packet_time = 0.1\<rparr> = Inr 0"
proof -
  note t1 = C9_success_rate_never_divides_by_zero
              [where st = "udp_client_init 0" and passes = silent_passes and ?t0.0 = 0
                 and st_end = "udp_client_init 0"]
  note t2 = C9_success_rate_never_divides_by_zero
              [where st = "udp_client_init 0" and passes = zero_total_passes and ?t0.0 = 0
                 and st_end = "\<lparr>bytes_received = 0, segments_received = {0},
                               total_segments = Some 0, last_packet_time = 0.1\<rparr>"]
  have none: "total_segments (udp_client_init 0) = None" by (simp add: udp_client_init_def)
  have a: "success_rate_of (udp_client_init 0) = Inr 0"
    using t1 silent_run silent_passes_no_total none by blast
  have b: "success_rate_of \<lparr>bytes_received = 0, segments_received = {0}, total_segments = Some 0,
                       last_packet_time = 0.1\<rparr> = Inr 0"
    using t2 zero_total_run zero_total_passes_total by blast
  from a b show ?thesis by (rule conjI)
qed

section \<open>Server: the TCP handler\<close>

subsection \<open>The send loop writes what is left, at most 1024 bytes at a time\<close>

lemma send_chunks_all:
  assumes ok: "\<forall>k. send_ok e k"
  shows "\<exists>c' new. send_chunks e file_size sent_bytes c = (None, c')
           \<and> written c' = written c @ new
           \<and> int (sum_list (map length new)) = max 0 (file_size - sent_bytes)
           \<and> (\<forall>b \<in> set new. int (length b) \<le> chunk_size)
           \<and> tcp_printed c' = tcp_printed c \<and> closed c' = closed c"
  using ok
proof (induction e file_size sent_bytes c rule: send_chunks.induct)
  case (1 e file_size sent_bytes c)
  show ?case
  proof (cases "sent_bytes < file_size")
    case False
    then have "send_chunks e file_size sent_bytes c = (None, c)"
      by (subst send_chunks.simps) simp
    then show ?thesis using False by simp
  next
    case True
    let ?chunk = "min chunk_size (file_size - sent_bytes)"
    let ?data = "random_bytes e (tcp_drawn c) ?chunk"
    let ?c1 = "c\<lparr>tcp_drawn := tcp_drawn c + nat ?chunk\<rparr>"
    let ?c2 = "?c1\<lparr>written := written ?c1 @ [?data]\<rparr>"
    have okk: "send_ok e (length (written ?c1))" using "1.prems" by simp
    from "1.IH"[OF True refl refl refl refl okk "1.prems"]
    obtain c' new where r: "send_chunks e file_size (sent_bytes + ?chunk) ?c2 = (None, c')"
      "written c' = written ?c2 @ new"
      "int (sum_list (map length new)) = max 0 (file_size - (sent_bytes + ?chunk))"
      "\<forall>b \<in> set new. int (length b) \<le> chunk_size"
      "tcp_printed c' = tcp_printed ?c2" "closed c' = closed ?c2"
      by blast
    have step: "send_chunks e file_size sent_bytes c = send_chunks e file_size (sent_bytes + ?chunk) ?c2"
      using True okk by (subst send_chunks.simps) (simp add: Let_def)
    have pos: "0 < ?chunk" using True by (simp add: chunk_size_def)
    have dl: "int (length ?data) = ?chunk" using pos by (simp add: random_bytes_def)
    have "send_chunks e file_size sent_bytes c = (None, c')" using step r(1) by simp
    moreover have "written c' = written c @ (?data # new)" using r(2) by simp
    moreover have "int (sum_list (map length (?data # new))) = max 0 (file_size - sent_bytes)"
      using r(3) dl True by (simp add: chunk_size_def)
    moreover have "\<forall>b \<in> set (?data # new). int (length b) \<le> chunk_size"
      using r(4) dl by simp
    moreover have "tcp_printed c' = tcp_printed c" "closed c' = closed c"
      using r(5,6) by simp_all
    ultimately show ?thesis by blast
  qed
qed

lemma reliable_env_ok: "\<forall>k. send_ok reliable_env k"
  by (simp add: reliable_env_def)

lemma request_line_int_examples:
  "request_line_int request_2500 = Some 2500"
  "request_line_int request_0 = Some 0"
  "request_line_int request_abc = None"
  by (simp_all add: request_line_int_def request_2500_def request_0_def request_abc_def)


text \<open>
  Claim C6. When the bytes read from an accepted connection parse as the integer
  \<open>file_size\<close>: if \<open>file_size > 0\<close> and no \<open>send\<close> raises, the handler hands exactly
  \<open>file_size\<close> bytes to \<open>client.send\<close>, in buffers of at most 1024 bytes, and the
  connection is closed afterwards; if \<open>file_size \<le> 0\<close> the request is rejected: nothing is
  written and the connection is closed.
\<close>

theorem C6_tcp_server_sends_file_size:
  assumes "data \<noteq> []" and "py_int data = Some file_size"
  shows "let c' = snd (handle_tcp_client py_int e (RecvData data) c); new = new_writes c c' in
           (0 < file_size \<and> (\<forall>k. send_ok e k) \<longrightarrow>
              written c' = written c @ new
              \<and> int (sum_list (map length new)) = file_size
              \<and> (\<forall>b \<in> set new. length b \<le> 1024)
              \<and> closed c')
         \<and> (file_size \<le> 0 \<longrightarrow> written c' = written c \<and> closed c')"
proof -
  let ?c' = "snd (handle_tcp_client py_int e (RecvData data) c)"
  have pos: "written ?c' = written c @ new_writes c ?c'
      \<and> int (sum_list (map length (new_writes c ?c'))) = file_size
      \<and> (\<forall>b \<in> set (new_writes c ?c'). length b \<le> 1024)
      \<and> closed ?c'"
    if fs: "0 < file_size" and ok: "\<forall>k. send_ok e k"
  proof -
    from send_chunks_all[OF ok, of file_size 0 c]
    obtain c1 new where r: "send_chunks e file_size 0 c = (None, c1)"
      "written c1 = written c @ new"
      "int (sum_list (map length new)) = max 0 (file_size - 0)"
      "\<forall>b \<in> set new. int (length b) \<le> chunk_size"
      by blast
    have body: "tcp_client_body py_int e (RecvData data) c = (None, c1)"
      using assms fs r(1) by (simp add: tcp_client_body_def)
    have c': "?c' = c1\<lparr>closed := True\<rparr>"
      using body by (simp add: handle_tcp_client_def)
    have nw: "new_writes c ?c' = new" using r(2) c' by (simp add: new_writes_def)
    have "int (sum_list (map length new)) = file_size" using r(3) fs by simp
    moreover have "\<forall>b \<in> set new. length b \<le> 1024"
      using r(4) by (auto simp: chunk_size_def)
    moreover have "written ?c' = written c @ new" using c' r(2) by simp
    moreover have "closed ?c'" using c' by simp
    ultimately show ?thesis unfolding nw by blast
  qed
  have nonpos: "written ?c' = written c \<and> closed ?c'" if fs: "file_size \<le> 0"
    using assms fs by (simp add: handle_tcp_client_def tcp_client_body_def)
  show ?thesis unfolding Let_def using pos nonpos by blast
qed

theorem C6_tcp_server_sends_file_size_witness:
  "int (sum_list (map length (new_writes fresh_conn
      (snd (handle_tcp_client request_line_int reliable_env (RecvData request_2500) fresh_conn)))))
     = 2500
   \<and> closed (snd (handle_tcp_client request_line_int reliable_env (RecvData request_2500) fresh_conn))
   \<and> written (snd (handle_tcp_client request_line_int reliable_env (RecvData request_0) fresh_conn))
     = written fresh_conn"
proof -
  let ?c1 = "snd (handle_tcp_client request_line_int reliable_env (RecvData request_2500) fresh_conn)"
  let ?c0 = "snd (handle_tcp_client request_line_int reliable_env (RecvData request_0) fresh_conn)"
  have ne1: "request_2500 \<noteq> []" by (simp add: request_2500_def)
  have ne0: "request_0 \<noteq> []" by (simp add: request_0_def)
  note t1 = C6_tcp_server_sends_file_size
              [where py_int = request_line_int and data = request_2500 and file_size = 2500
                 and e = reliable_env and c = fresh_conn,
               OF ne1 request_line_int_examples(1), unfolded Let_def]
  note t0 = C6_tcp_server_sends_file_size
              [where py_int = request_line_int and data = request_0 and file_size = 0
                 and e = reliable_env and c = fresh_conn,
               OF ne0 request_line_int_examples(2), unfolded Let_def]
  have "(0::int) < 2500 \<and> (\<forall>k. send_ok reliable_env k)" using reliable_env_ok by simp
  with t1 have a: "written ?c1 = written fresh_conn @ new_writes fresh_conn ?c1
      \<and> int (sum_list (map length (new_writes fresh_conn ?c1))) = 2500
      \<and> (\<forall>b \<in> set (new_writes fresh_conn ?c1). length b \<le> 1024)
      \<and> closed ?c1" by blast
  have "(0::int) \<le> 0" by simp
  with t0 have b: "written ?c0 = written fresh_conn \<and> closed ?c0" by blast
  from a b show ?thesis by blast
qed


text \<open>
  Claim C10. When the request is invalid (an empty read, bytes that do not parse as an
  integer, or a parsed value \<open>\<le> 0\<close>) the handler writes nothing to the connection, prints
  the error, closes the connection, and no exception leaves the handler (the first
  component of its result is \<open>None\<close>).
\<close>

theorem C10_tcp_invalid_request_sends_nothing:
  assumes "rcv = RecvData []
           \<or> (\<exists>data. rcv = RecvData data
                 \<and> (py_int data = None \<or> (\<exists>n. py_int data = Some n \<and> n \<le> 0)))"
  shows "handle_tcp_client py_int e rcv c =
           (None, c\<lparr>tcp_printed := tcp_printed c @ [''Error handling TCP client''],
                    closed := True\<rparr>)
         \<and> new_writes c (snd (handle_tcp_client py_int e rcv c)) = []"
proof -
  have "tcp_client_body py_int e rcv c = (Some ConnectionError, c)
        \<or> tcp_client_body py_int e rcv c = (Some ValueError, c)"
    using assms by (cases "\<exists>data. rcv = RecvData data \<and> data = []")
      (auto simp: tcp_client_body_def)
  then have "handle_tcp_client py_int e rcv c =
           (None, c\<lparr>tcp_printed := tcp_printed c @ [''Error handling TCP client''],
                    closed := True\<rparr>)"
    by (auto simp: handle_tcp_client_def)
  then show ?thesis by (simp add: new_writes_def)
qed

theorem C10_tcp_invalid_request_sends_nothing_witness:
  "new_writes fresh_conn (snd (handle_tcp_client request_line_int reliable_env (RecvData []) fresh_conn)) = []
   \<and> new_writes fresh_conn (snd (handle_tcp_client request_line_int reliable_env (RecvData request_abc) fresh_conn)) = []
   \<and> new_writes fresh_conn (snd (handle_tcp_client request_line_int reliable_env (RecvData request_0) fresh_conn)) = []
   \<and> closed (snd (handle_tcp_client request_line_int reliable_env (RecvData request_0) fresh_conn))"
proof -
  have h1: "RecvData [] = RecvData []
           \<or> (\<exists>data. RecvData [] = RecvData data
                 \<and> (request_line_int data = None \<or> (\<exists>n. request_line_int data = Some n \<and> n \<le> 0)))"
    by simp
  have h2: "RecvData request_abc = RecvData []
           \<or> (\<exists>data. RecvData request_abc = RecvData data
                 \<and> (request_line_int data = None \<or> (\<exists>n. request_line_int data = Some n \<and> n \<le> 0)))"
    using request_line_int_examples(3) by simp
  have h3: "RecvData request_0 = RecvData []
           \<or> (\<exists>data. RecvData request_0 = RecvData data
                 \<and> (request_line_int data = None \<or> (\<exists>n. request_line_int data = Some n \<and> n \<le> 0)))"
    using request_line_int_examples(2) by simp
  note t1 = C10_tcp_invalid_request_sends_nothing
              [where py_int = request_line_int and e = reliable_env and c = fresh_conn, OF h1]
  note t2 = C10_tcp_invalid_request_sends_nothing
              [where py_int = request_line_int and e = reliable_env and c = fresh_conn, OF h2]
  note t3 = C10_tcp_invalid_request_sends_nothing
              [where py_int = request_line_int and e = reliable_env and c = fresh_conn, OF h3]
  have "closed (snd (handle_tcp_client request_line_int reliable_env (RecvData request_0) fresh_conn))"
    using t3 by simp
  then show ?thesis using t1 t2 t3 by blast
qed

section \<open>Malformed datagrams at the three decode sites\<close>

lemma offer_try_malformed:
  "malformed 9 OFFER_MSG_TYPE data \<Longrightarrow> offer_try (Datagram data a) = Inr None"
  by (auto simp: offer_try_def malformed_def unpack_IbHH_def)

lemma udp_request_try_malformed:
  assumes "malformed 13 REQUEST_MSG_TYPE data"
  shows "udp_request_try (Datagram data a) s
         = Inr (s\<lparr>srv_printed := srv_printed s
                  @ (if data = [] then [''Received empty UDP packet'']
                     else if 13 \<le> length data then [''Received invalid UDP packet format'']
                     else [])\<rparr>)"
  using assms by (auto simp: udp_request_try_def malformed_def unpack_IbQ_def)

lemma malformed_examples:
  "malformed 9 OFFER_MSG_TYPE short_bytes"
  "malformed 21 PAYLOAD_MSG_TYPE bad_magic_segment"
  "malformed 13 REQUEST_MSG_TYPE wrong_type_request"
  by (simp_all add: malformed_def short_bytes_def bad_magic_segment_def wrong_type_request_def
        be_int_def MAGIC_COOKIE_def REQUEST_MSG_TYPE_def)


text \<open>
  Claim C4. A buffer that is shorter than the header of the expected message, or whose
  magic cookie or type byte differs, is skipped at each decode site without an exception,
  and the loop goes on to its next receive. At the offer listener the \<open>try\<close> body ends
  without raising and without returning, nothing is printed, and the listener does not
  return. At the client's UDP receive loop the datagram only moves \<open>last_packet_time\<close>. At
  the server's request receiver the \<open>try\<close> body ends without raising, no handler is
  started, and the state changes by at most the notice that the code prints for an empty
  or an invalid packet.
\<close>

theorem C4_malformed_datagrams_are_skipped:
  "(malformed 9 OFFER_MSG_TYPE data \<and> recvfrom i = Datagram data a
      \<longrightarrow> offer_try (recvfrom i) = Inr None
          \<and> offer_prints (recvfrom i) = []
          \<and> offer_of (recvfrom i) = None
          \<and> wait_for_offer recvfrom i = wait_for_offer recvfrom (Suc i))
   \<and> (malformed 21 PAYLOAD_MSG_TYPE data \<and> recv p = Datagram data a
        \<and> clock_top p - last_packet_time st \<le> 1
      \<longrightarrow> on_datagram data (clock_recv p) st = Inr (st\<lparr>last_packet_time := clock_recv p\<rparr>)
          \<and> udp_receive_loop (p # ps) st
              = udp_receive_loop ps (st\<lparr>last_packet_time := clock_recv p\<rparr>))
   \<and> (malformed 13 REQUEST_MSG_TYPE data
      \<longrightarrow> udp_request_try (Datagram data a) s
            = Inr (s\<lparr>srv_printed := srv_printed s
                     @ (if data = [] then [''Received empty UDP packet'']
                        else if 13 \<le> length data then [''Received invalid UDP packet format'']
                        else [])\<rparr>)
          \<and> spawned (udp_request_step (Datagram data a) s) = spawned s
          \<and> handle_udp_requests (Datagram data a # evs) s
              = handle_udp_requests evs
                  (s\<lparr>srv_printed := srv_printed s
                     @ (if data = [] then [''Received empty UDP packet'']
                        else if 13 \<le> length data then [''Received invalid UDP packet format'']
                        else [])\<rparr>))"
proof (intro conjI impI)
  assume h: "malformed 9 OFFER_MSG_TYPE data \<and> recvfrom i = Datagram data a"
  then show t: "offer_try (recvfrom i) = Inr None" by (simp add: offer_try_malformed)
  then show "offer_prints (recvfrom i) = []" by (simp add: offer_prints_def)
  from t show none: "offer_of (recvfrom i) = None" by (simp add: offer_of_def)
  then show "wait_for_offer recvfrom i = wait_for_offer recvfrom (Suc i)"
    by (rule wait_for_offer_skip)
next
  assume h: "malformed 21 PAYLOAD_MSG_TYPE data \<and> recv p = Datagram data a
        \<and> clock_top p - last_packet_time st \<le> 1"
  then show od: "on_datagram data (clock_recv p) st = Inr (st\<lparr>last_packet_time := clock_recv p\<rparr>)"
    by (simp add: on_datagram_malformed)
  show "udp_receive_loop (p # ps) st
              = udp_receive_loop ps (st\<lparr>last_packet_time := clock_recv p\<rparr>)"
    using h od by simp
next
  let ?s' = "s\<lparr>srv_printed := srv_printed s
                     @ (if data = [] then [''Received empty UDP packet'']
                        else if 13 \<le> length data then [''Received invalid UDP packet format'']
                        else [])\<rparr>"
  assume h: "malformed 13 REQUEST_MSG_TYPE data"
  then show t: "udp_request_try (Datagram data a) s = Inr ?s'"
    by (rule udp_request_try_malformed)
  then have step: "udp_request_step (Datagram data a) s = ?s'"
    by (simp add: udp_request_step_def)
  then show "spawned (udp_request_step (Datagram data a) s) = spawned s" by simp
  show "handle_udp_requests (Datagram data a # evs) s = handle_udp_requests evs ?s'"
    using step by simp
qed


theorem C4_malformed_datagrams_are_skipped_witness:
  "offer_try (offer_after_noise 2) = Inr None
   \<and> offer_prints (offer_after_noise 2) = []
   \<and> wait_for_offer offer_after_noise 2 = wait_for_offer offer_after_noise 3
   \<and> udp_receive_loop (pass_with 0.5 bad_magic_segment # silent_passes) seen_0
       = udp_receive_loop silent_passes (seen_0\<lparr>last_packet_time := 0.5\<rparr>)
   \<and> udp_request_try (Datagram wrong_type_request client_addr) fresh_server
       = Inr (fresh_server\<lparr>srv_printed := [''Received invalid UDP packet format'']\<rparr>)
   \<and> spawned (udp_request_step (Datagram wrong_type_request client_addr) fresh_server)
       = spawned fresh_server"
proof -
  note t = C4_malformed_datagrams_are_skipped
             [where recvfrom = offer_after_noise and i = 2 and data = short_bytes and a = server_addr]
  have at2: "offer_after_noise 2 = Datagram short_bytes server_addr"
    by (simp add: offer_after_noise_def short_bytes_def)
  from t malformed_examples(1) at2
  have a: "offer_try (offer_after_noise 2) = Inr None"
    and a2: "offer_prints (offer_after_noise 2) = []"
    and a3: "wait_for_offer offer_after_noise 2 = wait_for_offer offer_after_noise (Suc 2)"
    by blast+
  note u = C4_malformed_datagrams_are_skipped
             [where data = bad_magic_segment and p = "pass_with 0.5 bad_magic_segment"
                and a = server_addr and st = seen_0 and ps = silent_passes]
  have "recv (pass_with 0.5 bad_magic_segment) = Datagram bad_magic_segment server_addr"
    and "clock_top (pass_with 0.5 bad_magic_segment) - last_packet_time seen_0 \<le> 1"
    and cr: "clock_recv (pass_with 0.5 bad_magic_segment) = 0.5"
    by (simp_all add: pass_with_def seen_0_def)
  with u malformed_examples(2)
  have "udp_receive_loop (pass_with 0.5 bad_magic_segment # silent_passes) seen_0
       = udp_receive_loop silent_passes
           (seen_0\<lparr>last_packet_time := clock_recv (pass_with 0.5 bad_magic_segment)\<rparr>)"
    by blast
  then have b: "udp_receive_loop (pass_with 0.5 bad_magic_segment # silent_passes) seen_0
       = udp_receive_loop silent_passes (seen_0\<lparr>last_packet_time := 0.5\<rparr>)"
    unfolding cr .
  note v = C4_malformed_datagrams_are_skipped
             [where data = wrong_type_request and a = client_addr and s = fresh_server]
  from v malformed_examples(3)
  have c0: "udp_request_try (Datagram wrong_type_request client_addr) fresh_server
            = Inr (fresh_server\<lparr>srv_printed := srv_printed fresh_server
                     @ (if wrong_type_request = [] then [''Received empty UDP packet'']
                        else if 13 \<le> length wrong_type_request
                        then [''Received invalid UDP packet format'']
                        else [])\<rparr>)"
    and c2: "spawned (udp_request_step (Datagram wrong_type_request client_addr) fresh_server)
       = spawned fresh_server"
    by blast+
  have "srv_printed fresh_server
          @ (if wrong_type_request = [] then [''Received empty UDP packet'']
             else if 13 \<le> length wrong_type_request
             then [''Received invalid UDP packet format'']
             else [])
        = [''Received invalid UDP packet format'']"
    by (simp add: wrong_type_request_def fresh_server_def)
  with c0 have c: "udp_request_try (Datagram wrong_type_request client_addr) fresh_server
       = Inr (fresh_server\<lparr>srv_printed := [''Received invalid UDP packet format'']\<rparr>)"
    by simp
  have "Suc 2 = 3" by simp
  with a3 have a3': "wait_for_offer offer_after_noise 2 = wait_for_offer offer_after_noise 3"
    by simp
  from a a2 a3' b c c2 show ?thesis by (intro conjI)
qed

section \<open>Client: the throughput of a TCP transfer\<close>

text \<open>
  Claim C1 holds for the specification, not for the code. The peer delivers 1024 of the
  2048 bytes requested and closes; the loop ends with \<open>bytes_received = 1024\<close> (8192 bits
  in one second), while the reported speed is computed from \<open>file_size\<close>: 16384 bits per
  second.
\<close>

theorem C1_tcp_speed_computed_from_requested_size:
  "tcp_receive_loop early_close_chunks 2048 0 = Some (Inr 1024)
   \<and> tcp_transfer Connected True 2048 0 early_close_chunks 1
       = Some (Inr \<lparr>tcp_duration = 1, tcp_speed = 16384\<rparr>)
   \<and> tcp_speed \<lparr>tcp_duration = 1, tcp_speed = 16384\<rparr> \<noteq> real_of_int (1024 * 8) / 1"
  by (simp add: tcp_transfer_def early_close_chunks_def py_truediv_def)

section \<open>Client: the orchestrator starts every transfer and joins every thread\<close>

subsection \<open>The invariant of a run\<close>

lemma run_invariant_initial: "run_invariant cfg (initial cfg)"
  by (simp add: initial_def)

lemma main_step_invariant:
  assumes "run_invariant cfg s" and "main_step cfg s = Some s'"
  shows "run_invariant cfg s'"
proof (cases s)
  case (Pair c threads)
  show ?thesis
  proof (cases c)
    case (TcpLoop rest)
    show ?thesis
    proof (cases rest)
      case Nil
      with assms Pair TcpLoop show ?thesis by auto
    next
      case (Cons i rest')
      from assms(1) Pair TcpLoop Cons obtain started where
        st: "py_range (cfg_tcp_count cfg) = started @ i # rest'"
            "map fst threads = map (tcp_task cfg) started" by auto
      have "py_range (cfg_tcp_count cfg) = (started @ [i]) @ rest'" using st(1) by simp
      moreover have "map fst (threads @ [(tcp_task cfg i, Running)]) = map (tcp_task cfg) (started @ [i])"
        using st(2) by simp
      ultimately have "run_invariant cfg (TcpLoop rest', threads @ [(tcp_task cfg i, Running)])"
        unfolding run_invariant.simps by blast
      moreover have "s' = (TcpLoop rest', threads @ [(tcp_task cfg i, Running)])"
        using assms(2) Pair TcpLoop Cons by simp
      ultimately show ?thesis by simp
    qed
  next
    case (UdpLoop rest)
    show ?thesis
    proof (cases rest)
      case Nil
      with assms Pair UdpLoop show ?thesis by (auto simp: tasks_def)
    next
      case (Cons i rest')
      from assms(1) Pair UdpLoop Cons obtain started where
        st: "py_range (cfg_udp_count cfg) = started @ i # rest'"
            "map fst threads = map (tcp_task cfg) (py_range (cfg_tcp_count cfg)) @ map (udp_task cfg) started"
        by auto
      have "py_range (cfg_udp_count cfg) = (started @ [i]) @ rest'" using st(1) by simp
      moreover have "map fst (threads @ [(udp_task cfg i, Running)])
           = map (tcp_task cfg) (py_range (cfg_tcp_count cfg)) @ map (udp_task cfg) (started @ [i])"
        using st(2) by simp
      ultimately have "run_invariant cfg (UdpLoop rest', threads @ [(udp_task cfg i, Running)])"
        unfolding run_invariant.simps by blast
      moreover have "s' = (UdpLoop rest', threads @ [(udp_task cfg i, Running)])"
        using assms(2) Pair UdpLoop Cons by simp
      ultimately show ?thesis by simp
    qed
  next
    case (JoinLoop k)
    show ?thesis
    proof (cases "k < length threads")
      case True
      with assms Pair JoinLoop show ?thesis
        by (auto simp: take_Suc_conv_app_nth split: if_splits)
    next
      case False
      with assms Pair JoinLoop show ?thesis by auto
    qed
  next
    case Returned
    with assms Pair show ?thesis by simp
  qed
qed

lemma list_all_update:
  "list_all P xs \<Longrightarrow> P x \<Longrightarrow> list_all P (xs[k := x])"
  by (induction xs arbitrary: k) (auto split: nat.splits)

lemma map_fst_update_same:
  "k < length xs \<Longrightarrow> map fst (xs[k := (fst (xs ! k), y)]) = map fst xs"
  by (simp add: map_update list_update_same_conv)

lemma thread_returns_invariant:
  assumes "run_invariant cfg s" and "thread_returns k s = Some s'"
  shows "run_invariant cfg s'"
proof (cases s)
  case (Pair c threads)
  from assms(2) Pair have k: "k < length threads"
    and s': "s' = (c, threads[k := (fst (threads ! k), Finished)])"
    by (auto split: if_splits)
  have m: "map fst (threads[k := (fst (threads ! k), Finished)]) = map fst threads"
    using k by (rule map_fst_update_same)
  show ?thesis
  proof (cases c)
    case (TcpLoop rest)
    with assms(1) Pair s' m show ?thesis by simp
  next
    case (UdpLoop rest)
    with assms(1) Pair s' m show ?thesis by simp
  next
    case (JoinLoop j)
    have "list_all (\<lambda>th. snd th = Finished) (take j (threads[k := (fst (threads ! k), Finished)]))"
      if "list_all (\<lambda>th. snd th = Finished) (take j threads)"
      using that by (simp add: take_update_swap list_all_update)
    with assms(1) Pair s' m JoinLoop show ?thesis by simp
  next
    case Returned
    with assms(1) Pair s' m show ?thesis by (simp add: list_all_update)
  qed
qed

lemma run_invariant_run:
  assumes "run_invariant cfg s" and "run cfg acts s = Some s'"
  shows "run_invariant cfg s'"
  using assms
proof (induction acts arbitrary: s)
  case Nil
  then show ?case by simp
next
  case (Cons a acts)
  show ?case
  proof (cases a)
    case Orchestrator
    with Cons.prems(2) obtain s1 where s1: "main_step cfg s = Some s1" "run cfg acts s1 = Some s'"
      by (auto split: option.splits)
    from main_step_invariant[OF Cons.prems(1) s1(1)] s1(2) show ?thesis by (rule Cons.IH)
  next
    case (ThreadReturns k)
    with Cons.prems(2) obtain s1 where s1: "thread_returns k s = Some s1" "run cfg acts s1 = Some s'"
      by (auto split: option.splits)
    from thread_returns_invariant[OF Cons.prems(1) s1(1)] s1(2) show ?thesis by (rule Cons.IH)
  qed
qed

subsection \<open>Starting all threads\<close>

lemma run_append:
  "run cfg (xs @ ys) s = (case run cfg xs s of None \<Rightarrow> None | Some s' \<Rightarrow> run cfg ys s')"
proof (induction xs arbitrary: s)
  case Nil
  then show ?case by simp
next
  case (Cons a xs)
  then show ?case by (cases a) (simp_all split: option.splits)
qed

lemma run_starts_tcp:
  "run cfg (replicate (length rest) Orchestrator) (TcpLoop rest, threads)
   = Some (TcpLoop [], threads @ map (\<lambda>i. (tcp_task cfg i, Running)) rest)"
  by (induction rest arbitrary: threads) simp_all

lemma run_starts_udp:
  "run cfg (replicate (length rest) Orchestrator) (UdpLoop rest, threads)
   = Some (UdpLoop [], threads @ map (\<lambda>i. (udp_task cfg i, Running)) rest)"
  by (induction rest arbitrary: threads) simp_all

lemma length_py_range [simp]: "length (py_range n) = nat n"
  by (simp add: py_range_def)

lemma replicate_two_phases:
  "replicate (a + b + 2) x = replicate a x @ ([x] @ (replicate b x @ [x]))"
proof -
  have "a + b + 2 = a + (1 + (b + 1))" by simp
  then have "replicate (a + b + 2) x = replicate (a + (1 + (b + 1))) x" by (rule arg_cong)
  also have "\<dots> = replicate a x @ (replicate 1 x @ (replicate b x @ replicate 1 x))"
    by (simp only: replicate_add)
  finally show ?thesis by simp
qed

lemma run_starts_all:
  "run cfg (replicate (nat (cfg_tcp_count cfg) + nat (cfg_udp_count cfg) + 2) Orchestrator)
       (initial cfg)
   = Some (JoinLoop 0, map (\<lambda>t. (t, Running)) (tasks cfg))"
proof -
  let ?a = "nat (cfg_tcp_count cfg)" and ?b = "nat (cfg_udp_count cfg)"
  have split: "replicate (?a + ?b + 2) Orchestrator
      = replicate (length (py_range (cfg_tcp_count cfg))) Orchestrator
        @ ([Orchestrator]
           @ (replicate (length (py_range (cfg_udp_count cfg))) Orchestrator @ [Orchestrator]))"
    by (simp only: length_py_range replicate_two_phases)
  show ?thesis
    unfolding split initial_def
    by (simp only: run_append run_starts_tcp run_starts_udp option.case run.simps main_step.simps)
       (simp add: tasks_def comp_def)
qed

lemma map_succ_upt: "map (\<lambda>i. int i + 1) [0..<m] = [1..int m]"
proof (induction m)
  case 0
  then show ?case by simp
next
  case (Suc m)
  have "[1..int (Suc m)] = [1..int m] @ [int m + 1]"
    using upto_rec2[of 1 "int m + 1"] by (simp add: add.commute)
  with Suc show ?case by simp
qed

lemma transfer_nums_range: "map (\<lambda>i. i + 1) (py_range n) = [1..n]"
proof (cases "0 \<le> n")
  case True
  then show ?thesis using map_succ_upt[of "nat n"] by (simp add: py_range_def comp_def)
next
  case False
  then show ?thesis by (simp add: py_range_def)
qed

lemma tasks_targets:
  "map target (tasks cfg)
   = replicate (nat (cfg_tcp_count cfg)) TCP @ replicate (nat (cfg_udp_count cfg)) UDP"
  by (simp add: tasks_def tcp_task_def udp_task_def comp_def map_replicate_const)

lemma tasks_transfer_nums:
  "map transfer_num (tasks cfg) = [1..cfg_tcp_count cfg] @ [1..cfg_udp_count cfg]"
  by (simp add: tasks_def tcp_task_def udp_task_def comp_def transfer_nums_range)


lemma five_schedule_run:
  "run three_and_two five_schedule (initial three_and_two)
   = Some (Returned, map (\<lambda>t. (t, Finished)) (tasks three_and_two))"
  by (simp add: five_schedule_def initial_def three_and_two_def tasks_def py_range_def
      tcp_task_def udp_task_def upt_rec[of 0] upt_rec[of 1] upt_rec[of 2] upt_rec[of 3]
      eval_nat_numeral)


text \<open>
  Claim C7. The threads that \<open>_run_speed_test\<close> creates are \<open>tcp_count\<close> TCP transfers
  numbered \<open>1..tcp_count\<close> followed by \<open>udp_count\<close> UDP transfers numbered \<open>1..udp_count\<close>
  (the counts are not negative in a configuration). They run concurrently: the
  orchestrator reaches its join loop with all of them started and none yet required to
  have finished. And whatever the schedule, when the orchestrator has returned, the
  threads are exactly these and every one of them has finished.
\<close>

theorem C7_orchestrator_starts_all_and_joins_all:
  "map target (tasks cfg)
     = replicate (nat (cfg_tcp_count cfg)) TCP @ replicate (nat (cfg_udp_count cfg)) UDP
   \<and> map transfer_num (tasks cfg) = [1..cfg_tcp_count cfg] @ [1..cfg_udp_count cfg]
   \<and> run cfg (replicate (nat (cfg_tcp_count cfg) + nat (cfg_udp_count cfg) + 2) Orchestrator)
          (initial cfg)
       = Some (JoinLoop 0, map (\<lambda>t. (t, Running)) (tasks cfg))
   \<and> (run cfg schedule (initial cfg) = Some (Returned, threads)
      \<longrightarrow> map fst threads = tasks cfg \<and> list_all (\<lambda>th. snd th = Finished) threads)"
proof (intro conjI impI)
  show "map target (tasks cfg)
     = replicate (nat (cfg_tcp_count cfg)) TCP @ replicate (nat (cfg_udp_count cfg)) UDP"
    by (rule tasks_targets)
  show "map transfer_num (tasks cfg) = [1..cfg_tcp_count cfg] @ [1..cfg_udp_count cfg]"
    by (rule tasks_transfer_nums)
  show "run cfg (replicate (nat (cfg_tcp_count cfg) + nat (cfg_udp_count cfg) + 2) Orchestrator)
          (initial cfg)
       = Some (JoinLoop 0, map (\<lambda>t. (t, Running)) (tasks cfg))"
    by (rule run_starts_all)
next
  assume r: "run cfg schedule (initial cfg) = Some (Returned, threads)"
  have inv: "run_invariant cfg (Returned, threads)"
    using run_invariant_initial r by (rule run_invariant_run)
  then show "map fst threads = tasks cfg" by simp
  from inv show "list_all (\<lambda>th. snd th = Finished) threads" by simp
qed

theorem C7_orchestrator_starts_all_and_joins_all_witness:
  "map target (tasks three_and_two) = [TCP, TCP, TCP, UDP, UDP]
   \<and> map transfer_num (tasks three_and_two) = [1, 2, 3, 1, 2]
   \<and> run three_and_two (replicate 7 Orchestrator) (initial three_and_two)
       = Some (JoinLoop 0, map (\<lambda>t. (t, Running)) (tasks three_and_two))
   \<and> list_all (\<lambda>th. snd th = Finished) (map (\<lambda>t. (t, Finished)) (tasks three_and_two))"
proof -
  note t = C7_orchestrator_starts_all_and_joins_all
             [where cfg = three_and_two and schedule = five_schedule
                and threads = "map (\<lambda>t. (t, Finished)) (tasks three_and_two)"]
  have counts: "cfg_tcp_count three_and_two = 3" "cfg_udp_count three_and_two = 2"
    by (simp_all add: three_and_two_def)
  have a: "map target (tasks three_and_two) = [TCP, TCP, TCP, UDP, UDP]"
    using t[THEN conjunct1] unfolding counts by (simp add: eval_nat_numeral)
  have ranges: "[1..(3::int)] = [1, 2, 3]" "[1..(2::int)] = [1, 2]"
    by (simp_all add: upto_rec1)
  have b: "map transfer_num (tasks three_and_two) = [1, 2, 3, 1, 2]"
    using t[THEN conjunct2, THEN conjunct1] unfolding counts ranges by simp
  have c: "run three_and_two (replicate 7 Orchestrator) (initial three_and_two)
       = Some (JoinLoop 0, map (\<lambda>t. (t, Running)) (tasks three_and_two))"
    using t[THEN conjunct2, THEN conjunct2, THEN conjunct1] unfolding counts by simp
  have d: "list_all (\<lambda>th. snd th = Finished) (map (\<lambda>t. (t, Finished)) (tasks three_and_two))"
    using t[THEN conjunct2, THEN conjunct2, THEN conjunct2] five_schedule_run by blast
  from a b c d show ?thesis by (intro conjI)
qed

section \<open>Client: when the UDP receive loop ends\<close>

subsection \<open>Moving along the passes\<close>

lemma on_datagram_resets:
  "\<exists>st'. on_datagram data t st = Inr st' \<and> last_packet_time st' = t"
proof -
  obtain st' where "on_datagram data t st = Inr st'" using on_datagram_total by blast
  then show ?thesis using on_datagram_sets_last_packet_time by blast
qed

lemma head_gap_0: "head_gap st (p # ps) 0 = clock_top p - last_packet_time st"
  by (simp add: head_gap_def)

lemma head_gap_Suc:
  assumes "last_packet_time st1
           = (case recv p of Datagram data a \<Rightarrow> clock_recv p | RecvFails err \<Rightarrow> last_packet_time st)"
  shows "head_gap st (p # ps) (Suc j) = head_gap st1 ps j"
  using assms by (simp add: head_gap_def)

lemma last_reading_take_Suc:
  assumes "last_packet_time st1
           = (case recv p of Datagram data a \<Rightarrow> clock_recv p | RecvFails err \<Rightarrow> last_packet_time st)"
  shows "last_reading (last_packet_time st) (take (Suc k) (p # ps))
         = last_reading (last_packet_time st1) (take k ps)"
  using assms by simp

lemma quiet_before_0: "quiet_before st ps 0"
  by (simp add: quiet_before_def)

lemma quiet_before_Suc:
  assumes "last_packet_time st1
           = (case recv p of Datagram data a \<Rightarrow> clock_recv p | RecvFails err \<Rightarrow> last_packet_time st)"
  shows "quiet_before st (p # ps) (Suc k)
         \<longleftrightarrow> clock_top p - last_packet_time st \<le> 1 \<and> only_timeout p \<and> quiet_before st1 ps k"
  unfolding quiet_before_def All_less_Suc2
  by (simp add: head_gap_0 head_gap_Suc[OF assms])

subsection \<open>What each outcome of the loop implies\<close>

lemma udp_receive_loop_outcome:
  "(udp_receive_loop ps st = None
      \<longrightarrow> quiet_before st ps (length ps))
   \<and> (\<forall>st'. udp_receive_loop ps st = Some (Inr st')
      \<longrightarrow> (\<exists>k<length ps. head_gap st ps k > 1 \<and> quiet_before st ps k
               \<and> last_packet_time st' = last_reading (last_packet_time st) (take k ps)))
   \<and> (\<forall>err. udp_receive_loop ps st = Some (Inl err)
      \<longrightarrow> err \<noteq> SocketTimeout
          \<and> (\<exists>k<length ps. recv (ps ! k) = RecvFails err \<and> head_gap st ps k \<le> 1
                \<and> quiet_before st ps k))"
proof (induction ps arbitrary: st)
  case Nil
  show ?case by (simp add: quiet_before_0)
next
  case (Cons p ps)
  show ?case
  proof (cases "clock_top p - last_packet_time st > 1")
    case True
    then have r: "udp_receive_loop (p # ps) st = Some (Inr st)" by simp
    have "head_gap st (p # ps) 0 > 1" using True by (simp add: head_gap_0)
    moreover have "last_packet_time st = last_reading (last_packet_time st) (take 0 (p # ps))"
      by simp
    ultimately have "\<exists>k<length (p # ps). head_gap st (p # ps) k > 1 \<and> quiet_before st (p # ps) k
               \<and> last_packet_time st = last_reading (last_packet_time st) (take k (p # ps))"
      using quiet_before_0[of st "p # ps"] by (intro exI[of _ 0]) simp
    then show ?thesis unfolding r by simp
  next
    case False
    then have le: "clock_top p - last_packet_time st \<le> 1" by simp
    show ?thesis
    proof (cases "recv p")
      case (RecvFails e)
      show ?thesis
      proof (cases "e = SocketTimeout")
        case True
        have r: "udp_receive_loop (p # ps) st = udp_receive_loop ps st"
          using le RecvFails True by simp
        have lt: "last_packet_time st
           = (case recv p of Datagram data a \<Rightarrow> clock_recv p | RecvFails err \<Rightarrow> last_packet_time st)"
          using RecvFails by simp
        have ot: "only_timeout p" using RecvFails True by (simp add: only_timeout_def)
        note qs = quiet_before_Suc[OF lt, of ps]
        note hs = head_gap_Suc[OF lt, of ps]
        note ls = last_reading_take_Suc[OF lt, of _ ps]
        have a: "quiet_before st (p # ps) (length (p # ps))"
          if "quiet_before st ps (length ps)"
          using that le ot by (simp add: qs)
        have b: "\<exists>k<length (p # ps). head_gap st (p # ps) k > 1 \<and> quiet_before st (p # ps) k
               \<and> last_packet_time st' = last_reading (last_packet_time st) (take k (p # ps))"
          if ex: "\<exists>k<length ps. head_gap st ps k > 1 \<and> quiet_before st ps k
               \<and> last_packet_time st' = last_reading (last_packet_time st) (take k ps)" for st'
        proof -
          from ex obtain k where k: "k < length ps" "head_gap st ps k > 1" "quiet_before st ps k"
            "last_packet_time st' = last_reading (last_packet_time st) (take k ps)" by blast
          have "Suc k < length (p # ps)" using k(1) by simp
          moreover have "head_gap st (p # ps) (Suc k) > 1" using k(2) by (simp add: hs)
          moreover have "quiet_before st (p # ps) (Suc k)" using k(3) le ot by (simp add: qs)
          moreover have "last_packet_time st'
              = last_reading (last_packet_time st) (take (Suc k) (p # ps))"
            using k(4) by (simp only: ls)
          ultimately show ?thesis by blast
        qed
        have c: "\<exists>k<length (p # ps). recv ((p # ps) ! k) = RecvFails err
                   \<and> head_gap st (p # ps) k \<le> 1 \<and> quiet_before st (p # ps) k"
          if ex: "\<exists>k<length ps. recv (ps ! k) = RecvFails err \<and> head_gap st ps k \<le> 1
                   \<and> quiet_before st ps k" for err
        proof -
          from ex obtain k where k: "k < length ps" "recv (ps ! k) = RecvFails err"
            "head_gap st ps k \<le> 1" "quiet_before st ps k" by blast
          have "Suc k < length (p # ps)" using k(1) by simp
          moreover have "recv ((p # ps) ! Suc k) = RecvFails err" using k(2) by simp
          moreover have "head_gap st (p # ps) (Suc k) \<le> 1" using k(3) by (simp add: hs)
          moreover have "quiet_before st (p # ps) (Suc k)" using k(4) le ot by (simp add: qs)
          ultimately show ?thesis by blast
        qed
        show ?thesis unfolding r using Cons.IH[of st] a b c by blast
      next
        case False
        have r: "udp_receive_loop (p # ps) st = Some (Inl e)"
          using le RecvFails False by simp
        have "recv ((p # ps) ! 0) = RecvFails e" using RecvFails by simp
        moreover have "head_gap st (p # ps) 0 \<le> 1" using le by (simp add: head_gap_0)
        ultimately have "\<exists>k<length (p # ps). recv ((p # ps) ! k) = RecvFails e
                   \<and> head_gap st (p # ps) k \<le> 1 \<and> quiet_before st (p # ps) k"
          using quiet_before_0[of st "p # ps"] by (intro exI[of _ 0]) simp
        then show ?thesis unfolding r using False by simp
      qed
    next
      case (Datagram data a)
      obtain st1 where st1: "on_datagram data (clock_recv p) st = Inr st1"
        "last_packet_time st1 = clock_recv p"
        using on_datagram_resets by blast
      have r: "udp_receive_loop (p # ps) st = udp_receive_loop ps st1"
        using le Datagram st1(1) by simp
      have lt: "last_packet_time st1
           = (case recv p of Datagram data a \<Rightarrow> clock_recv p | RecvFails err \<Rightarrow> last_packet_time st)"
        using Datagram st1(2) by simp
      have ot: "only_timeout p" using Datagram by (simp add: only_timeout_def)
      note qs = quiet_before_Suc[OF lt, of ps]
      note hs = head_gap_Suc[OF lt, of ps]
      note ls = last_reading_take_Suc[OF lt, of _ ps]
      have a: "quiet_before st (p # ps) (length (p # ps))"
        if "quiet_before st1 ps (length ps)"
        using that le ot by (simp add: qs)
      have b: "\<exists>k<length (p # ps). head_gap st (p # ps) k > 1 \<and> quiet_before st (p # ps) k
             \<and> last_packet_time st' = last_reading (last_packet_time st) (take k (p # ps))"
        if ex: "\<exists>k<length ps. head_gap st1 ps k > 1 \<and> quiet_before st1 ps k
             \<and> last_packet_time st' = last_reading (last_packet_time st1) (take k ps)" for st'
      proof -
        from ex obtain k where k: "k < length ps" "head_gap st1 ps k > 1" "quiet_before st1 ps k"
          "last_packet_time st' = last_reading (last_packet_time st1) (take k ps)" by blast
        have "Suc k < length (p # ps)" using k(1) by simp
        moreover have "head_gap st (p # ps) (Suc k) > 1" using k(2) by (simp add: hs)
        moreover have "quiet_before st (p # ps) (Suc k)" using k(3) le ot by (simp add: qs)
        moreover have "last_packet_time st'
            = last_reading (last_packet_time st) (take (Suc k) (p # ps))"
          using k(4) by (simp only: ls)
        ultimately show ?thesis by blast
      qed
      have c: "\<exists>k<length (p # ps). recv ((p # ps) ! k) = RecvFails err
                 \<and> head_gap st (p # ps) k \<le> 1 \<and> quiet_before st (p # ps) k"
        if ex: "\<exists>k<length ps. recv (ps ! k) = RecvFails err \<and> head_gap st1 ps k \<le> 1
                 \<and> quiet_before st1 ps k" for err
      proof -
        from ex obtain k where k: "k < length ps" "recv (ps ! k) = RecvFails err"
          "head_gap st1 ps k \<le> 1" "quiet_before st1 ps k" by blast
        have "Suc k < length (p # ps)" using k(1) by simp
        moreover have "recv ((p # ps) ! Suc k) = RecvFails err" using k(2) by simp
        moreover have "head_gap st (p # ps) (Suc k) \<le> 1" using k(3) by (simp add: hs)
        moreover have "quiet_before st (p # ps) (Suc k)" using k(4) le ot by (simp add: qs)
        ultimately show ?thesis by blast
      qed
      show ?thesis unfolding r using Cons.IH[of st1] a b c by blast
    qed
  qed
qed

subsection \<open>The outcomes exclude one another\<close>

lemma loop_None_quiet:
  "udp_receive_loop ps st = None \<Longrightarrow> quiet_before st ps (length ps)"
  using udp_receive_loop_outcome[of ps st] by blast

lemma loop_break_at:
  "udp_receive_loop ps st = Some (Inr st') \<Longrightarrow>
   \<exists>k<length ps. head_gap st ps k > 1 \<and> quiet_before st ps k
      \<and> last_packet_time st' = last_reading (last_packet_time st) (take k ps)"
  using udp_receive_loop_outcome[of ps st] by blast

lemma loop_error_at:
  "udp_receive_loop ps st = Some (Inl err) \<Longrightarrow>
   err \<noteq> SocketTimeout
   \<and> (\<exists>k<length ps. recv (ps ! k) = RecvFails err \<and> head_gap st ps k \<le> 1
          \<and> quiet_before st ps k)"
  using udp_receive_loop_outcome[of ps st] by blast

lemma quiet_beforeD:
  "quiet_before st ps k \<Longrightarrow> j < k \<Longrightarrow> head_gap st ps j \<le> 1 \<and> only_timeout (ps ! j)"
  by (simp add: quiet_before_def)

lemma error_not_only_timeout:
  "recv p = RecvFails err \<Longrightarrow> err \<noteq> SocketTimeout \<Longrightarrow> \<not> only_timeout p"
  by (simp add: only_timeout_def)

lemma break_excludes_error:
  assumes brk: "k < length ps" "head_gap st ps k > 1" "quiet_before st ps k"
    and err: "k' < length ps" "recv (ps ! k') = RecvFails err" "err \<noteq> SocketTimeout"
             "head_gap st ps k' \<le> 1" "quiet_before st ps k'"
  shows False
proof (cases k k' rule: linorder_cases)
  case less
  then show ?thesis using quiet_beforeD[OF err(5) less] brk(2) by simp
next
  case equal
  then show ?thesis using brk(2) err(4) by simp
next
  case greater
  then show ?thesis
    using quiet_beforeD[OF brk(3) greater] error_not_only_timeout[OF err(2,3)] by simp
qed

lemma errors_same_place:
  assumes a: "k < length ps" "recv (ps ! k) = RecvFails err" "err \<noteq> SocketTimeout"
             "quiet_before st ps k"
    and b: "k' < length ps" "recv (ps ! k') = RecvFails err'" "err' \<noteq> SocketTimeout"
           "quiet_before st ps k'"
  shows "err = err'"
proof (cases k k' rule: linorder_cases)
  case less
  then show ?thesis
    using quiet_beforeD[OF b(4) less] error_not_only_timeout[OF a(2,3)] by simp
next
  case equal
  then show ?thesis using a(2) b(2) by simp
next
  case greater
  then show ?thesis
    using quiet_beforeD[OF a(4) greater] error_not_only_timeout[OF b(2,3)] by simp
qed

lemma loop_breaks_iff:
  "(\<exists>st'. udp_receive_loop ps st = Some (Inr st'))
   \<longleftrightarrow> (\<exists>k<length ps. head_gap st ps k > 1 \<and> quiet_before st ps k)"
proof
  assume "\<exists>st'. udp_receive_loop ps st = Some (Inr st')"
  then show "\<exists>k<length ps. head_gap st ps k > 1 \<and> quiet_before st ps k"
    using loop_break_at by blast
next
  assume "\<exists>k<length ps. head_gap st ps k > 1 \<and> quiet_before st ps k"
  then obtain k where k: "k < length ps" "head_gap st ps k > 1" "quiet_before st ps k" by blast
  show "\<exists>st'. udp_receive_loop ps st = Some (Inr st')"
  proof (cases "udp_receive_loop ps st")
    case None
    from quiet_beforeD[OF loop_None_quiet[OF None] k(1)] k(2) show ?thesis by simp
  next
    case (Some r)
    show ?thesis
    proof (cases r)
      case (Inl err)
      from loop_error_at[OF Some[unfolded Inl]] obtain k' where
        "err \<noteq> SocketTimeout" "k' < length ps" "recv (ps ! k') = RecvFails err"
        "head_gap st ps k' \<le> 1" "quiet_before st ps k'" by blast
      with break_excludes_error[OF k] show ?thesis by blast
    next
      case (Inr st')
      with Some show ?thesis by simp
    qed
  qed
qed

lemma loop_error_iff:
  "udp_receive_loop ps st = Some (Inl err)
   \<longleftrightarrow> err \<noteq> SocketTimeout
       \<and> (\<exists>k<length ps. recv (ps ! k) = RecvFails err \<and> head_gap st ps k \<le> 1
              \<and> quiet_before st ps k)"
proof
  assume "udp_receive_loop ps st = Some (Inl err)"
  then show "err \<noteq> SocketTimeout
       \<and> (\<exists>k<length ps. recv (ps ! k) = RecvFails err \<and> head_gap st ps k \<le> 1
              \<and> quiet_before st ps k)"
    by (rule loop_error_at)
next
  assume "err \<noteq> SocketTimeout
       \<and> (\<exists>k<length ps. recv (ps ! k) = RecvFails err \<and> head_gap st ps k \<le> 1
              \<and> quiet_before st ps k)"
  then obtain k where ne: "err \<noteq> SocketTimeout" and k: "k < length ps"
    "recv (ps ! k) = RecvFails err" "head_gap st ps k \<le> 1" "quiet_before st ps k" by blast
  show "udp_receive_loop ps st = Some (Inl err)"
  proof (cases "udp_receive_loop ps st")
    case None
    from quiet_beforeD[OF loop_None_quiet[OF None] k(1)] error_not_only_timeout[OF k(2) ne]
    show ?thesis by simp
  next
    case (Some r)
    show ?thesis
    proof (cases r)
      case (Inl err')
      from loop_error_at[OF Some[unfolded Inl]] obtain k' where k':
        "err' \<noteq> SocketTimeout" "k' < length ps" "recv (ps ! k') = RecvFails err'"
        "quiet_before st ps k'" by blast
      have "err = err'" using errors_same_place[OF k(1,2) ne k(4) k'(2,3,1,4)] .
      then show ?thesis using Some Inl by simp
    next
      case (Inr st')
      from loop_break_at[OF Some[unfolded Inr]] obtain k' where
        "k' < length ps" "head_gap st ps k' > 1" "quiet_before st ps k'" by blast
      from break_excludes_error[OF this k(1,2) ne k(3,4)] show ?thesis by simp
    qed
  qed
qed

lemma loop_running_iff:
  "udp_receive_loop ps st = None \<longleftrightarrow> quiet_before st ps (length ps)"
proof
  assume "udp_receive_loop ps st = None"
  then show "quiet_before st ps (length ps)" by (rule loop_None_quiet)
next
  assume q: "quiet_before st ps (length ps)"
  show "udp_receive_loop ps st = None"
  proof (cases "udp_receive_loop ps st")
    case None
    then show ?thesis .
  next
    case (Some r)
    show ?thesis
    proof (cases r)
      case (Inl err)
      from loop_error_at[OF Some[unfolded Inl]] obtain k where
        "err \<noteq> SocketTimeout" "k < length ps" "recv (ps ! k) = RecvFails err" by blast
      with quiet_beforeD[OF q] error_not_only_timeout show ?thesis by blast
    next
      case (Inr st')
      from loop_break_at[OF Some[unfolded Inr]] obtain k where
        "k < length ps" "head_gap st ps k > 1" by blast
      with quiet_beforeD[OF q, of k] show ?thesis by simp
    qed
  qed
qed

lemma error_run:
  "udp_receive_loop error_passes (udp_client_init 0) = Some (Inl SocketError)"
  by (simp add: error_passes_def udp_example_defs)

lemma waiting_run: "udp_receive_loop waiting_passes (udp_client_init 0) = None"
  by (simp add: waiting_passes_def udp_example_defs)


text \<open>
  Claim C8, as stated, fails twice. An exception of \<open>recvfrom\<close> that is not the timeout
  ends the loop half a second after the start, although the gap is within one second
  (only \<open>socket.timeout\<close> is caught inside the loop, line 212). And the gap is tested only
  at the head of the loop (line 187), with \<open>>\<close>: when the head reads exactly one second
  after the last reading the loop receives once more, and the datagram delivered then, 1.4
  seconds after the last reading, is accepted and counted.
\<close>

theorem C8_error_ends_loop_and_late_datagram_is_accepted:
  "udp_receive_loop error_passes (udp_client_init 0) = Some (Inl SocketError)
   \<and> head_gap (udp_client_init 0) error_passes 0 = 0.5
   \<and> udp_receive_loop late_passes (udp_client_init 0)
       = Some (Inr \<lparr>bytes_received = 1, segments_received = {0}, total_segments = Some 1,
                    last_packet_time = 1.4\<rparr>)"
  by (simp add: error_passes_def late_passes_def head_gap_def udp_example_defs)


text \<open>
  Claim C8, amended, on the clock readings that the code takes. Every datagram received,
  malformed and duplicate ones included, moves \<open>last_packet_time\<close> to the reading taken on
  its receipt. The loop breaks exactly when a test at its head finds the clock more than
  one second past the reading at the most recent datagram (or the initial reading), no
  earlier test having fired and no exception other than the timeout having been raised
  before; the state it ends with carries that reading. The only other way the loop ends is
  an exception of \<open>recvfrom\<close> other than the timeout, raised before any test has fired. In
  every other case the loop is still running.
\<close>

theorem C8_loop_ends_at_head_test_or_on_error:
  "(\<exists>st'. on_datagram data t st = Inr st' \<and> last_packet_time st' = t)
   \<and> ((\<exists>st_end. udp_receive_loop ps st = Some (Inr st_end))
        \<longleftrightarrow> (\<exists>k<length ps. head_gap st ps k > 1 \<and> quiet_before st ps k))
   \<and> (udp_receive_loop ps st = Some (Inr st_end)
        \<longrightarrow> (\<exists>k<length ps. head_gap st ps k > 1 \<and> quiet_before st ps k
                 \<and> last_packet_time st_end = last_reading (last_packet_time st) (take k ps)))
   \<and> (udp_receive_loop ps st = Some (Inl err)
        \<longleftrightarrow> err \<noteq> SocketTimeout
            \<and> (\<exists>k<length ps. recv (ps ! k) = RecvFails err \<and> head_gap st ps k \<le> 1
                   \<and> quiet_before st ps k))
   \<and> (udp_receive_loop ps st = None \<longleftrightarrow> quiet_before st ps (length ps))"
proof (intro conjI)
  show "\<exists>st'. on_datagram data t st = Inr st' \<and> last_packet_time st' = t"
    by (rule on_datagram_resets)
  show "(\<exists>st_end. udp_receive_loop ps st = Some (Inr st_end))
        \<longleftrightarrow> (\<exists>k<length ps. head_gap st ps k > 1 \<and> quiet_before st ps k)"
    by (rule loop_breaks_iff)
  show "udp_receive_loop ps st = Some (Inr st_end)
        \<longrightarrow> (\<exists>k<length ps. head_gap st ps k > 1 \<and> quiet_before st ps k
                 \<and> last_packet_time st_end = last_reading (last_packet_time st) (take k ps))"
    using loop_break_at by blast
  show "udp_receive_loop ps st = Some (Inl err)
        \<longleftrightarrow> err \<noteq> SocketTimeout
            \<and> (\<exists>k<length ps. recv (ps ! k) = RecvFails err \<and> head_gap st ps k \<le> 1
                   \<and> quiet_before st ps k)"
    by (rule loop_error_iff)
  show "udp_receive_loop ps st = None \<longleftrightarrow> quiet_before st ps (length ps)"
    by (rule loop_running_iff)
qed


theorem C8_loop_ends_at_head_test_or_on_error_witness:
  "(\<exists>st'. on_datagram bad_magic_segment 0.5 seen_0 = Inr st' \<and> last_packet_time st' = 0.5)
   \<and> (\<exists>k<length silent_passes. head_gap (udp_client_init 0) silent_passes k > 1
         \<and> last_packet_time (udp_client_init 0)
             = last_reading (last_packet_time (udp_client_init 0)) (take k silent_passes))
   \<and> (\<exists>k<length error_passes. recv (error_passes ! k) = RecvFails SocketError
         \<and> head_gap (udp_client_init 0) error_passes k \<le> 1)
   \<and> head_gap (udp_client_init 0) waiting_passes 0 \<le> 1"
proof -
  note t1 = C8_loop_ends_at_head_test_or_on_error
              [where data = bad_magic_segment and t = "0.5" and st = seen_0]
  have a: "\<exists>st'. on_datagram bad_magic_segment 0.5 seen_0 = Inr st' \<and> last_packet_time st' = 0.5"
    using t1 by (rule conjunct1)
  note t2 = C8_loop_ends_at_head_test_or_on_error
              [where ps = silent_passes and st = "udp_client_init 0"
                 and st_end = "udp_client_init 0"]
  have b: "\<exists>k<length silent_passes. head_gap (udp_client_init 0) silent_passes k > 1
         \<and> last_packet_time (udp_client_init 0)
             = last_reading (last_packet_time (udp_client_init 0)) (take k silent_passes)"
    using t2 silent_run by blast
  note t3 = C8_loop_ends_at_head_test_or_on_error
              [where ps = error_passes and st = "udp_client_init 0" and err = SocketError]
  have c: "\<exists>k<length error_passes. recv (error_passes ! k) = RecvFails SocketError
         \<and> head_gap (udp_client_init 0) error_passes k \<le> 1"
    using t3 error_run by blast
  note t4 = C8_loop_ends_at_head_test_or_on_error
              [where ps = waiting_passes and st = "udp_client_init 0"]
  have "quiet_before (udp_client_init 0) waiting_passes (length waiting_passes)"
    using t4 waiting_run by blast
  moreover have "0 < length waiting_passes" by (simp add: waiting_passes_def)
  ultimately have d: "head_gap (udp_client_init 0) waiting_passes 0 \<le> 1"
    using quiet_beforeD by blast
  from a b c d show ?thesis by (intro conjI)
qed

end
